theory Spec2Isabelle
  imports Main "HOL-Library.Char_ord" "HOL-Library.List_Lexorder"
begin

section \<open>The intermediate representation (lib/infer/types.ts)\<close>

text \<open>
  The IR of the inference engine. \<open>InferredType\<close> is the tagged union of types.ts, one
  constructor per \<open>kind\<close> (\<open>UnionT\<close> for \<open>"union"\<close>). \<open>ObjectType\<close> is its
  \<open>"object"\<close> member, a type of its own in the source, which \<open>mergeObjectTypes\<close> takes
  and returns; \<open>PropertyInfo\<close> is the record attached to a property, with \<open>ptype\<close> for
  its field \<open>type\<close>. A \<open>PropertyMap\<close> (\<open>Record<string, PropertyInfo>\<close>) is an
  association list in the order the keys were written; a JavaScript object holds every key
  once. (JavaScript enumerates keys that look like array indices first; no statement below
  depends on the order of keys.)

  Strings are lists of 8-bit characters: the model covers ASCII text, on which
  \<open>toUpperCase\<close>, \<open>toLowerCase\<close> and the character classes of the regular expressions
  act as defined here.
\<close>

datatype PrimitiveKind = PString | PNumber | PBoolean | PNull

datatype InferredType =
    Primitive PrimitiveKind
  | Array InferredType
  | Object ObjectType
  | UnionT "InferredType list"
  | Unknown
  | DateString
and ObjectType =
    ObjectType (properties: "(string \<times> PropertyInfo) list") (typeName: string)
and PropertyInfo =
    PropertyInfo (ptype: InferredType) (optional: bool) (nullable: bool)

type_synonym PropertyMap = "(string \<times> PropertyInfo) list"

datatype DiagnosticLevel = Error | Warning | Info

record Diagnostic =
  level :: DiagnosticLevel
  message :: string
  path :: string

record InferSettings =
  rootTypeName :: string
  detectDates :: bool

text \<open>\<open>InferResult\<close>, with \<open>rtype\<close> for its field \<open>type\<close>.\<close>

record InferResult =
  rtype :: InferredType
  diagnostics :: "Diagnostic list"
  fieldCount :: nat

text \<open>
  \<open>GenerateSettings\<close>. \<open>outputStyle\<close> is \<open>"type"\<close> or \<open>"interface"\<close>; the fields
  \<open>rootTypeName\<close>, \<open>detectDates\<close> and \<open>snakeToCamel\<close> are written \<open>g_rootTypeName\<close>,
  \<open>g_detectDates\<close> and \<open>snakeToCamelOn\<close>, the plain names being those of the inference
  settings and of the function \<open>snakeToCamel\<close>.
\<close>

datatype OutputStyle = TypeAlias | Interface

record GenerateSettings =
  g_rootTypeName :: string
  outputStyle :: OutputStyle
  strictObjects :: bool
  g_detectDates :: bool
  snakeToCamelOn :: bool

section \<open>Property maps\<close>

text \<open>
  \<open>Object.keys(m)\<close>, the read \<open>m[k]\<close> (\<open>None\<close> for \<open>undefined\<close>) and the write
  \<open>m[k] = v\<close>, which replaces the entry of a key in place and appends a new key. A read is
  a lookup among the entries of the map itself: keys that name members every JavaScript
  object inherits (\<open>constructor\<close>, \<open>toString\<close>, \<open>__proto__\<close> and the like), for which
  \<open>m[k]\<close> reads or writes something else, are outside the model.
\<close>

definition keys :: "PropertyMap \<Rightarrow> string list" where
  "keys m = map fst m"

definition getProp :: "PropertyMap \<Rightarrow> string \<Rightarrow> PropertyInfo option" where
  "getProp m k = map_of m k"

fun setProp :: "PropertyMap \<Rightarrow> string \<Rightarrow> PropertyInfo \<Rightarrow> PropertyMap" where
  "setProp [] k v = [(k, v)]"
| "setProp ((k', v') # m) k v = (if k' = k then (k, v) # m else (k', v') # setProp m k v)"

section \<open>Structural equality and merging (lib/infer/merge.ts)\<close>

text \<open>
  \<open>typesEqual\<close>. The first test of the source, \<open>a.kind !== b.kind\<close>, is the last
  equation. \<open>every\<close> over the variants of two unions of one length, and over the sorted
  keys of two objects, is \<open>list_all2\<close>; \<open>sort\<close> orders strings by character code, as
  the default comparison of \<open>Array.prototype.sort\<close> does.
\<close>

function (sequential) typesEqual :: "InferredType \<Rightarrow> InferredType \<Rightarrow> bool" where
  "typesEqual (Primitive a) (Primitive b) = (a = b)"
| "typesEqual Unknown Unknown = True"
| "typesEqual DateString DateString = True"
| "typesEqual (Array a) (Array b) = typesEqual a b"
| "typesEqual (UnionT as) (UnionT bs) =
     (if length as \<noteq> length bs then False else list_all2 typesEqual as bs)"
| "typesEqual (Object a) (Object b) =
     (let aKeys = sort (keys (properties a)); bKeys = sort (keys (properties b))
      in if length aKeys \<noteq> length bKeys then False
         else list_all2 (\<lambda>k bk. k = bk \<and>
                (case (getProp (properties a) k, getProp (properties b) k) of
                   (Some pa, Some pb) \<Rightarrow> typesEqual (ptype pa) (ptype pb)
                 | _ \<Rightarrow> False)) aKeys bKeys)"
| "typesEqual _ _ = False"
  by pat_completeness auto
termination
proof -
  have mem: "size v < Suc (size_list size vs)" if "v \<in> set vs" for v :: InferredType and vs
  proof -
    from that have "size v \<le> size_list size vs" by (rule size_list_estimation') simp
    then show ?thesis by simp
  qed
  have prp: "size (ptype pinfo) < Suc (size ob)"
    if "Some pinfo = getProp (properties ob) key" for key pinfo ob
  proof -
    from that have "(key, pinfo) \<in> set (properties ob)"
      unfolding getProp_def by (simp add: map_of_SomeD)
    then have "size_prod (\<lambda>_. 0) size (key, pinfo)
        \<le> size_list (size_prod (\<lambda>_. 0) size) (properties ob)"
      by (rule size_list_estimation') simp
    then show ?thesis by (cases ob; cases pinfo) simp
  qed
  show ?thesis
    by (relation "measure (\<lambda>(a, b). size a)") (auto simp: mem prp)
qed

text \<open>\<open>flattenUnions\<close>: a union among the inputs is replaced by its flattened variants.\<close>

fun flattenUnions :: "InferredType list \<Rightarrow> InferredType list" where
  "flattenUnions [] = []"
| "flattenUnions (UnionT vs # ts) = flattenUnions vs @ flattenUnions ts"
| "flattenUnions (t # ts) = t # flattenUnions ts"

text \<open>\<open>deduplicateTypes\<close>: the loop pushes \<open>t\<close> unless some earlier result equals it.\<close>

definition dedupStep :: "InferredType \<Rightarrow> InferredType list \<Rightarrow> InferredType list" where
  "dedupStep t result = (if list_ex (\<lambda>r. typesEqual r t) result then result else result @ [t])"

definition deduplicateTypes :: "InferredType list \<Rightarrow> InferredType list" where
  "deduplicateTypes types = fold dedupStep types []"

text \<open>\<open>mergeTypes\<close>, with \<open>isUnknown\<close> for the test \<open>t.kind !== "unknown"\<close> of its filter.\<close>

definition isUnknown :: "InferredType \<Rightarrow> bool" where
  "isUnknown t = (case t of Unknown \<Rightarrow> True | _ \<Rightarrow> False)"

definition mergeTypes :: "InferredType list \<Rightarrow> InferredType" where
  "mergeTypes types =
     (if length types = 0 then Unknown
      else let flat = flattenUnions types;
               deduped = deduplicateTypes flat;
               meaningful = filter (\<lambda>t. \<not> isUnknown t) deduped;
               finalTypes = (if length meaningful > 0 then meaningful else deduped)
           in case finalTypes of [t] \<Rightarrow> t | _ \<Rightarrow> UnionT finalTypes)"

text \<open>
  \<open>mergeObjectTypes\<close>. \<open>allKeys\<close> is a JavaScript \<open>Set\<close>: \<open>add\<close> appends a key
  that is not yet a member. \<open>collectKey\<close> is the inner loop over the objects for one key,
  with its three accumulators; \<open>stripNull\<close> is the block that separates a null variant
  from a merged union (\<open>collapseNonNull\<close> its conditional expression); \<open>mergeProperty\<close>
  is the body of the loop over \<open>allKeys\<close>.
\<close>

definition addKey :: "string \<Rightarrow> string list \<Rightarrow> string list" where
  "addKey key allKeys = (if key \<in> set allKeys then allKeys else allKeys @ [key])"

definition collectAllKeys :: "ObjectType list \<Rightarrow> string list" where
  "collectAllKeys objects = fold (\<lambda>obj allKeys. fold addKey (keys (properties obj)) allKeys) objects []"

fun collectKey :: "string \<Rightarrow> ObjectType list \<Rightarrow> InferredType list \<Rightarrow> nat \<Rightarrow> nat
    \<Rightarrow> InferredType list \<times> nat \<times> nat" where
  "collectKey key [] typesForKey presentCount nullableCount =
     (typesForKey, presentCount, nullableCount)"
| "collectKey key (obj # objs) typesForKey presentCount nullableCount =
     (case getProp (properties obj) key of
        None \<Rightarrow> collectKey key objs typesForKey presentCount nullableCount
      | Some prop \<Rightarrow>
          collectKey key objs (typesForKey @ [ptype prop]) (presentCount + 1)
            (if nullable prop then nullableCount + 1 else nullableCount))"

definition isNullPrimitive :: "InferredType \<Rightarrow> bool" where
  "isNullPrimitive v = (case v of Primitive PNull \<Rightarrow> True | _ \<Rightarrow> False)"

definition collapseNonNull :: "InferredType list \<Rightarrow> InferredType" where
  "collapseNonNull nonNullVariants =
     (if length nonNullVariants = 1 then hd nonNullVariants
      else if length nonNullVariants = 0 then Primitive PNull
      else UnionT nonNullVariants)"

definition stripNull :: "InferredType \<Rightarrow> bool \<Rightarrow> InferredType \<times> bool" where
  "stripNull mergedType isNullable =
     (case mergedType of
        UnionT variants \<Rightarrow>
          (let nonNullVariants = filter (\<lambda>v. \<not> isNullPrimitive v) variants;
               hasNullVariant = list_ex isNullPrimitive variants
           in if hasNullVariant then (collapseNonNull nonNullVariants, True)
              else (mergedType, isNullable))
      | _ \<Rightarrow> (mergedType, isNullable))"

definition mergeProperty :: "ObjectType list \<Rightarrow> string \<Rightarrow> PropertyInfo" where
  "mergeProperty objects key =
     (case collectKey key objects [] 0 0 of (typesForKey, presentCount, nullableCount) \<Rightarrow>
        (let totalObjects = length objects;
             isOptional = presentCount < totalObjects;
             isNullable = nullableCount > 0;
             mergedType = mergeTypes typesForKey
         in case stripNull mergedType isNullable of (finalType, finalNullable) \<Rightarrow>
              PropertyInfo finalType isOptional finalNullable))"

definition mergeObjectTypes :: "ObjectType list \<Rightarrow> string \<Rightarrow> ObjectType" where
  "mergeObjectTypes objects tn =
     (case objects of
        [] \<Rightarrow> ObjectType [] tn
      | [obj] \<Rightarrow> ObjectType (properties obj) tn
      | _ \<Rightarrow>
          ObjectType
            (fold (\<lambda>key mergedProperties. setProp mergedProperties key (mergeProperty objects key))
               (collectAllKeys objects) [])
            tn)"

section \<open>Name generation (lib/infer/naming.ts)\<close>

text \<open>
  \<open>toPascalCase\<close>, step by step: \<open>insertHumps\<close> is the replacement of
  \<open>/([a-z])([A-Z])/g\<close> by \<open>"$1_$2"\<close> (the search goes on behind the two characters it
  matched), \<open>splitSeparators\<close> is \<open>split(/[_\-\s]+/)\<close> (the pieces between runs of
  separators, empty pieces at both ends included), then come \<open>filter(Boolean)\<close>, the
  capitalisation of every word and \<open>join("")\<close>.
\<close>

definition isLower :: "char \<Rightarrow> bool" where
  "isLower c = (CHR ''a'' \<le> c \<and> c \<le> CHR ''z'')"

definition isUpper :: "char \<Rightarrow> bool" where
  "isUpper c = (CHR ''A'' \<le> c \<and> c \<le> CHR ''Z'')"

definition isDigit :: "char \<Rightarrow> bool" where
  "isDigit c = (CHR ''0'' \<le> c \<and> c \<le> CHR ''9'')"

definition toUpperChar :: "char \<Rightarrow> char" where
  "toUpperChar c = (if isLower c then char_of (of_char c - (32::nat)) else c)"

definition toLowerChar :: "char \<Rightarrow> char" where
  "toLowerChar c = (if isUpper c then char_of (of_char c + (32::nat)) else c)"

definition isSpace :: "char \<Rightarrow> bool" where
  "isSpace c = (c \<in> {CHR 0x09, CHR 0x0A, CHR 0x0B, CHR 0x0C, CHR 0x0D, CHR '' ''})"

definition isSeparator :: "char \<Rightarrow> bool" where
  "isSeparator c = (c = CHR ''_'' \<or> c = CHR ''-'' \<or> isSpace c)"

fun insertHumps :: "string \<Rightarrow> string" where
  "insertHumps (a # b # cs) =
     (if isLower a \<and> isUpper b then a # CHR ''_'' # b # insertHumps cs
      else a # insertHumps (b # cs))"
| "insertHumps cs = cs"

function splitSeparators :: "string \<Rightarrow> string \<Rightarrow> string list" where
  "splitSeparators cur [] = [rev cur]"
| "splitSeparators cur (c # cs) =
     (if isSeparator c then rev cur # splitSeparators [] (dropWhile isSeparator cs)
      else splitSeparators (c # cur) cs)"
  by pat_completeness auto
termination
  by (relation "measure (\<lambda>(cur, s). length s)")
     (auto simp: length_dropWhile_le less_Suc_eq_le)

definition capitalize :: "string \<Rightarrow> string" where
  "capitalize word = (case word of [] \<Rightarrow> [] | c # cs \<Rightarrow> toUpperChar c # map toLowerChar cs)"

definition toPascalCase :: "string \<Rightarrow> string" where
  "toPascalCase str =
     concat (map capitalize (filter (\<lambda>w. w \<noteq> []) (splitSeparators [] (insertHumps str))))"

text \<open>
  \<open>NameGenerator.generate\<close>. The map \<open>usedNames\<close> of the class is passed in and
  returned; \<open>showNat\<close> is the decimal text of a number in a template literal.
\<close>

definition digitChar :: "nat \<Rightarrow> char" where
  "digitChar d = char_of (48 + d)"

fun showNat :: "nat \<Rightarrow> string" where
  "showNat n = (if n < 10 then [digitChar n] else showNat (n div 10) @ [digitChar (n mod 10)])"

declare showNat.simps [simp del]

definition generate :: "string list \<Rightarrow> (string \<rightharpoonup> nat) \<Rightarrow> string \<times> (string \<rightharpoonup> nat)" where
  "generate pathSegments usedNames =
     (let base = concat (map toPascalCase pathSegments);
          candidateName = (if base = [] then ''Root'' else base);
          count = (case usedNames candidateName of None \<Rightarrow> 0 | Some n \<Rightarrow> n);
          usedNames' = usedNames(candidateName \<mapsto> count + 1)
      in if count = 0 then (candidateName, usedNames')
         else (candidateName @ showNat (count + 1), usedNames'))"

section \<open>Regular expressions of the source\<close>

text \<open>
  A regular expression is a matcher: a function from a text to the list of the rests that
  a match of a prefix of the text can leave, one rest for every way to match. \<open>matches\<close>
  is \<open>test\<close> for an expression anchored at both ends: some match leaves nothing. \<open>mPlus\<close>
  repeats a matcher once or more; every repetition here consumes a character, so the length
  of the text bounds their number. \<open>ISO_DATE_REGEX\<close> is
  \<open>/^\d{4}-\d{2}-\d{2}(T\d{2}:\d{2}(:\d{2}(\.\d+)?)?(Z|[+-]\d{2}:?\d{2})?)?$/\<close>, and
  \<open>isSnakeCaseRegex\<close> is \<open>/^[a-z][a-z0-9]*(_[a-z0-9]+)+$/\<close>. \<open>snakeToCamel\<close> is the
  replacement of \<open>/_([a-z])/g\<close> by the upper-case letter.
\<close>

type_synonym matcher = "string \<Rightarrow> string list"

definition mClass :: "(char \<Rightarrow> bool) \<Rightarrow> matcher" where
  "mClass P s = (case s of [] \<Rightarrow> [] | c # cs \<Rightarrow> if P c then [cs] else [])"

definition mChar :: "char \<Rightarrow> matcher" where
  "mChar c = mClass (\<lambda>d. d = c)"

definition mSeq :: "matcher \<Rightarrow> matcher \<Rightarrow> matcher" where
  "mSeq m1 m2 s = concat (map m2 (m1 s))"

definition mAlt :: "matcher \<Rightarrow> matcher \<Rightarrow> matcher" where
  "mAlt m1 m2 s = m1 s @ m2 s"

definition mOpt :: "matcher \<Rightarrow> matcher" where
  "mOpt m s = m s @ [s]"

fun mRepeat :: "nat \<Rightarrow> matcher \<Rightarrow> matcher" where
  "mRepeat 0 m s = []"
| "mRepeat (Suc n) m s = concat (map (\<lambda>r. mRepeat n m r @ [r]) (m s))"

definition mPlus :: "matcher \<Rightarrow> matcher" where
  "mPlus m s = mRepeat (length s) m s"

definition mStar :: "matcher \<Rightarrow> matcher" where
  "mStar m = mOpt (mPlus m)"

definition matches :: "matcher \<Rightarrow> string \<Rightarrow> bool" where
  "matches m s = list_ex (\<lambda>r. r = []) (m s)"

definition d2 :: matcher where
  "d2 = mSeq (mClass isDigit) (mClass isDigit)"

definition ISO_DATE_REGEX :: matcher where
  "ISO_DATE_REGEX =
     mSeq (mSeq d2 d2) (mSeq (mChar CHR ''-'') (mSeq d2 (mSeq (mChar CHR ''-'') (mSeq d2
       (mOpt
          (mSeq (mChar CHR ''T'') (mSeq d2 (mSeq (mChar CHR '':'') (mSeq d2
             (mSeq
                (mOpt (mSeq (mChar CHR '':'') (mSeq d2
                   (mOpt (mSeq (mChar CHR ''.'') (mPlus (mClass isDigit)))))))
                (mOpt (mAlt (mChar CHR ''Z'')
                   (mSeq (mClass (\<lambda>c. c = CHR ''+'' \<or> c = CHR ''-''))
                      (mSeq d2 (mSeq (mOpt (mChar CHR '':'')) d2)))))))))))))))"

definition isSnakeCaseRegex :: matcher where
  "isSnakeCaseRegex =
     mSeq (mClass isLower) (mSeq (mStar (mClass (\<lambda>c. isLower c \<or> isDigit c)))
       (mPlus (mSeq (mChar CHR ''_'') (mPlus (mClass (\<lambda>c. isLower c \<or> isDigit c))))))"

definition isSnakeCase :: "string \<Rightarrow> bool" where
  "isSnakeCase str = matches isSnakeCaseRegex str"

fun snakeToCamel :: "string \<Rightarrow> string" where
  "snakeToCamel (a # b # cs) =
     (if a = CHR ''_'' \<and> isLower b then toUpperChar b # snakeToCamel cs
      else a # snakeToCamel (b # cs))"
| "snakeToCamel cs = cs"

section \<open>Inference (lib/infer/infer.ts)\<close>

text \<open>
  A value handed to \<open>inferType\<close> is a finite tree: \<open>JObject\<close> lists the entries of an
  object in the order of \<open>Object.keys\<close>, \<open>JOther\<close> stands for a value that is neither
  null, a string, a number, a boolean, an array nor an object (\<open>undefined\<close>, say), for
  which \<open>typeof\<close> is not \<open>"object"\<close>. The number in \<open>JNumber\<close> is never looked at.

  The three variables the closures of \<open>inferType\<close> share (\<open>diagnostics\<close>, the name
  generator and \<open>fieldCount\<close>) are the record \<open>InferState\<close>, which every function takes
  and returns. \<open>join\<close> is \<open>Array.prototype.join\<close>; the four diagnostics \<open>infer\<close> pushes
  and the one of the root check are named after their messages.
\<close>

datatype json =
    JNull
  | JString string
  | JNumber int
  | JBool bool
  | JArray "json list"
  | JObject "(string \<times> json) list"
  | JOther

record InferState =
  st_diagnostics :: "Diagnostic list"
  usedNames :: "string \<rightharpoonup> nat"
  st_fieldCount :: nat

fun join :: "string \<Rightarrow> string list \<Rightarrow> string" where
  "join sep [] = []"
| "join sep [x] = x"
| "join sep (x # xs) = x @ sep @ join sep xs"

definition pushDiagnostic :: "Diagnostic \<Rightarrow> InferState \<Rightarrow> InferState" where
  "pushDiagnostic d st = st\<lparr>st_diagnostics := st_diagnostics st @ [d]\<rparr>"

definition nameGen_generate :: "string list \<Rightarrow> InferState \<Rightarrow> string \<times> InferState" where
  "nameGen_generate pathSegments st =
     (case generate pathSegments (usedNames st) of (name, used) \<Rightarrow> (name, st\<lparr>usedNames := used\<rparr>))"

definition startsWithBracket :: "string \<Rightarrow> bool" where
  "startsWithBracket p = (case p of [] \<Rightarrow> False | c # _ \<Rightarrow> c = CHR ''['')"

definition pathOrRoot :: "string list \<Rightarrow> string" where
  "pathOrRoot p = (if join ''.'' p = [] then ''root'' else join ''.'' p)"

definition dateInfo :: "string list \<Rightarrow> Diagnostic" where
  \<open>dateInfo p = \<lparr>level = Info,
     message = ''Detected ISO date string at "'' @ join ''.'' p @ ''"'',
     path = join ''.'' p\<rparr>\<close>

definition emptyArrayWarning :: "string list \<Rightarrow> Diagnostic" where
  \<open>emptyArrayWarning p = \<lparr>level = Warning,
     message = ''Empty array at "'' @ pathOrRoot p @ ''". Defaulting to unknown[].'',
     path = join ''.'' p\<rparr>\<close>

definition mixedWarning :: "string list \<Rightarrow> Diagnostic" where
  \<open>mixedWarning p = \<lparr>level = Warning,
     message = ''Mixed element types in array at "'' @ pathOrRoot p @ ''".'',
     path = join ''.'' p\<rparr>\<close>

definition mixedObjectsWarning :: "string list \<Rightarrow> Diagnostic" where
  \<open>mixedObjectsWarning p = \<lparr>level = Warning,
     message = ''Mixed element types (objects and primitives) in array at "'' @ pathOrRoot p @ ''".'',
     path = join ''.'' p\<rparr>\<close>

definition rootError :: Diagnostic where
  "rootError = \<lparr>level = Error, message = ''Root value must be an object or array.'', path = []\<rparr>"

definition isUnion :: "InferredType \<Rightarrow> bool" where
  "isUnion t = (case t of UnionT _ \<Rightarrow> True | _ \<Rightarrow> False)"

definition itemPath :: "string list \<Rightarrow> string list" where
  "itemPath p = filter (\<lambda>q. \<not> startsWithBracket q) p @ [''item'']"

definition propertyOf :: "InferredType \<Rightarrow> PropertyInfo" where
  "propertyOf childType =
     (if isNullPrimitive childType then PropertyInfo Unknown False True
      else PropertyInfo childType False False)"

text \<open>
  \<open>infer\<close>, \<open>inferArray\<close> and \<open>inferObject\<close> with their loops: \<open>inferElements\<close> is the
  loop of \<open>inferArray\<close> over the indices, with \<open>objectElements\<close> and \<open>otherElements\<close>
  as a pair that \<open>pushElement\<close> extends, and \<open>arrayResult\<close> is what \<open>inferArray\<close> does
  after the loop; \<open>inferProperties\<close> is the loop of \<open>inferObject\<close> over the keys
  (\<open>countField\<close> its \<open>fieldCount++\<close>, \<open>propertyOf\<close> the entry it writes), and
  \<open>objectResult\<close> is what \<open>inferObject\<close> does after the loop.
\<close>

definition pushElement :: "InferredType \<Rightarrow> ObjectType list \<times> InferredType list
    \<Rightarrow> ObjectType list \<times> InferredType list" where
  "pushElement elemType acc =
     (case acc of (objectElements, otherElements) \<Rightarrow>
        (case elemType of
           Object ob \<Rightarrow> (objectElements @ [ob], otherElements)
         | _ \<Rightarrow> (objectElements, otherElements @ [elemType])))"

definition arrayResult :: "string list \<Rightarrow> nat
    \<Rightarrow> (ObjectType list \<times> InferredType list) \<times> InferState \<Rightarrow> InferredType \<times> InferState" where
  "arrayResult p arrLength r =
     (case r of ((objectElements, otherElements), st1) \<Rightarrow>
        if length objectElements = arrLength then
          (case nameGen_generate (itemPath p) st1 of (itemName, st2) \<Rightarrow>
             (Array (Object (mergeObjectTypes objectElements itemName)), st2))
        else if length objectElements = 0 then
          (let merged = mergeTypes otherElements
           in (Array merged, if isUnion merged then pushDiagnostic (mixedWarning p) st1 else st1))
        else
          (let st2 = pushDiagnostic (mixedObjectsWarning p) st1
           in if length objectElements > 0 then
                (case nameGen_generate (itemPath p) st2 of (itemName, st3) \<Rightarrow>
                   (Array (mergeTypes (otherElements @
                      [Object (mergeObjectTypes objectElements itemName)])), st3))
              else (Array (mergeTypes otherElements), st2)))"

definition objectResult :: "InferSettings \<Rightarrow> string list \<Rightarrow> PropertyMap \<times> InferState
    \<Rightarrow> ObjectType \<times> InferState" where
  "objectResult settings p r =
     (case r of (props, st1) \<Rightarrow>
        (case nameGen_generate
                (if length p = 0 then [rootTypeName settings]
                 else filter (\<lambda>q. \<not> startsWithBracket q) p) st1 of
           (tn, st2) \<Rightarrow> (ObjectType props tn, st2)))"

definition countField :: "InferState \<Rightarrow> InferState" where
  "countField st = st\<lparr>st_fieldCount := st_fieldCount st + 1\<rparr>"

definition wrapObject :: "ObjectType \<times> InferState \<Rightarrow> InferredType \<times> InferState" where
  "wrapObject r = (case r of (ob, st) \<Rightarrow> (Object ob, st))"

function (sequential) infer :: "InferSettings \<Rightarrow> json \<Rightarrow> string list \<Rightarrow> InferState \<Rightarrow> InferredType \<times> InferState"
and inferArray :: "InferSettings \<Rightarrow> json list \<Rightarrow> string list \<Rightarrow> InferState \<Rightarrow> InferredType \<times> InferState"
and inferElements :: "InferSettings \<Rightarrow> json list \<Rightarrow> string list \<Rightarrow> nat
      \<Rightarrow> ObjectType list \<times> InferredType list \<Rightarrow> InferState
      \<Rightarrow> (ObjectType list \<times> InferredType list) \<times> InferState"
and inferObject :: "InferSettings \<Rightarrow> (string \<times> json) list \<Rightarrow> string list \<Rightarrow> InferState \<Rightarrow> ObjectType \<times> InferState"
and inferProperties :: "InferSettings \<Rightarrow> (string \<times> json) list \<Rightarrow> string list \<Rightarrow> PropertyMap
      \<Rightarrow> InferState \<Rightarrow> PropertyMap \<times> InferState"
where
  "infer settings JNull p st = (Primitive PNull, st)"
| "infer settings (JString val) p st =
     (if detectDates settings \<and> matches ISO_DATE_REGEX val
      then (DateString, pushDiagnostic (dateInfo p) st)
      else (Primitive PString, st))"
| "infer settings (JNumber n) p st = (Primitive PNumber, st)"
| "infer settings (JBool b) p st = (Primitive PBoolean, st)"
| "infer settings (JArray arr) p st = inferArray settings arr p st"
| "infer settings (JObject obj) p st = wrapObject (inferObject settings obj p st)"
| "infer settings JOther p st = (Unknown, st)"
| "inferArray settings arr p st =
     (if length arr = 0 then (Array Unknown, pushDiagnostic (emptyArrayWarning p) st)
      else arrayResult p (length arr) (inferElements settings arr p 0 ([], []) st))"
| "inferElements settings [] p i acc st = (acc, st)"
| "inferElements settings (val # rest) p i acc st =
     (case infer settings val (p @ [''['' @ showNat i @ '']'']) st of (elemType, st') \<Rightarrow>
        inferElements settings rest p (i + 1) (pushElement elemType acc) st')"
| "inferObject settings obj p st = objectResult settings p (inferProperties settings obj p [] st)"
| "inferProperties settings [] p props st = (props, st)"
| "inferProperties settings ((key, val) # rest) p props st =
     (case infer settings val (p @ [key]) (countField st) of (childType, st1) \<Rightarrow>
        inferProperties settings rest p (setProp props key (propertyOf childType)) st1)"
  by pat_completeness auto
termination
  by (relation "measure (\<lambda>x. case x of
         Inl (Inl (settings, v, p, st)) \<Rightarrow> 3 * size v
       | Inl (Inr (settings, arr, p, st)) \<Rightarrow> 3 * size_list size arr + 2
       | Inr (Inl (settings, arr, p, i, acc, st)) \<Rightarrow> 3 * size_list size arr + 1
       | Inr (Inr (Inl (settings, obj, p, st))) \<Rightarrow> 3 * size_list (size_prod (\<lambda>_. 0) size) obj + 2
       | Inr (Inr (Inr (settings, obj, p, props, st))) \<Rightarrow> 3 * size_list (size_prod (\<lambda>_. 0) size) obj + 1)")
     simp_all

text \<open>
  \<open>inferType\<close>: the root check \<open>typeof value !== "object" || value === null\<close>, and the
  root object renamed to the configured name.
\<close>

definition initialState :: InferState where
  "initialState = \<lparr>st_diagnostics = [], usedNames = Map.empty, st_fieldCount = 0\<rparr>"

definition typeofObject :: "json \<Rightarrow> bool" where
  "typeofObject v = (case v of JNull \<Rightarrow> True | JArray _ \<Rightarrow> True | JObject _ \<Rightarrow> True | _ \<Rightarrow> False)"

definition inferType :: "json \<Rightarrow> InferSettings \<Rightarrow> InferResult" where
  "inferType val settings =
     (if \<not> typeofObject val \<or> val = JNull then
        (case infer settings val [] (pushDiagnostic rootError initialState) of (t, st) \<Rightarrow>
           \<lparr>rtype = t, diagnostics = st_diagnostics st, fieldCount = st_fieldCount st\<rparr>)
      else
        (case infer settings val [] initialState of (rootType, st) \<Rightarrow>
           \<lparr>rtype = (case rootType of
                       Object ob \<Rightarrow> Object (ObjectType (properties ob) (rootTypeName settings))
                     | _ \<Rightarrow> rootType),
            diagnostics = st_diagnostics st, fieldCount = st_fieldCount st\<rparr>))"

section \<open>Generators (lib/generate)\<close>

text \<open>
  The rendering of types and of one object by the three emitters: \<open>typeToTS\<close> and
  \<open>generateObjectDeclaration\<close> (typescript.ts), \<open>typeToZod\<close> and
  \<open>generateObjectSchema\<close> (zod.ts), \<open>generateValue\<close> (example.ts). The functions given
  to \<open>entries.map\<close> are \<open>declarationField\<close>, \<open>schemaField\<close> and \<open>exampleField\<close>;
  \<open>snakeConversion\<close> is the comment line the declaration emitter pushes for a rewritten
  key, and \<open>tsKeyOf\<close> the key it and the example emitter write.
\<close>

definition newline :: string where
  "newline = [CHR 0x0A]"

definition primitiveName :: "PrimitiveKind \<Rightarrow> string" where
  "primitiveName k = (case k of PString \<Rightarrow> ''string'' | PNumber \<Rightarrow> ''number''
                        | PBoolean \<Rightarrow> ''boolean'' | PNull \<Rightarrow> ''null'')"

fun typeToTS :: "InferredType \<Rightarrow> GenerateSettings \<Rightarrow> string" where
  "typeToTS (Primitive k) settings = primitiveName k"
| "typeToTS Unknown settings = ''unknown''"
| "typeToTS DateString settings = ''string''"
| "typeToTS (Array elementType) settings =
     (let inner = typeToTS elementType settings
      in if isUnion elementType then ''('' @ inner @ '')[]'' else inner @ ''[]'')"
| "typeToTS (UnionT variants) settings = join '' | '' (map (\<lambda>v. typeToTS v settings) variants)"
| "typeToTS (Object ob) settings = typeName ob"

definition tsKeyOf :: "GenerateSettings \<Rightarrow> string \<Rightarrow> string" where
  "tsKeyOf settings key =
     (if snakeToCamelOn settings \<and> isSnakeCase key then snakeToCamel key else key)"

definition declarationField :: "GenerateSettings \<Rightarrow> string \<times> PropertyInfo \<Rightarrow> string" where
  "declarationField settings entry =
     (case entry of (key, prop) \<Rightarrow>
        (let tsKey = tsKeyOf settings key;
             tsType = typeToTS (ptype prop) settings;
             nullableText = (if nullable prop then '' | null'' else '''');
             optionalText = (if optional prop then ''?'' else '''')
         in ''  '' @ tsKey @ optionalText @ '': '' @ tsType @ nullableText @ '';''))"

definition snakeConversion :: "GenerateSettings \<Rightarrow> string \<times> PropertyInfo \<Rightarrow> string list" where
  \<open>snakeConversion settings entry =
     (case entry of (key, prop) \<Rightarrow>
        (if snakeToCamelOn settings \<and> isSnakeCase key
         then [''  // "'' @ snakeToCamel key @ ''" maps to JSON key "'' @ key @ ''"'']
         else []))\<close>

definition generateObjectDeclaration :: "ObjectType \<Rightarrow> GenerateSettings \<Rightarrow> string" where
  "generateObjectDeclaration obj settings =
     (let entries = properties obj;
          fields = map (declarationField settings) entries;
          snakeConversions = concat (map (snakeConversion settings) entries);
          comment = (if length snakeConversions > 0
                     then ''/**'' @ newline @ join newline snakeConversions @ newline @ '' */'' @ newline
                     else '''')
      in if outputStyle settings = Interface
         then comment @ ''export interface '' @ typeName obj @ '' {'' @ newline
                @ join newline fields @ newline @ ''}''
         else comment @ ''export type '' @ typeName obj @ '' = {'' @ newline
                @ join newline fields @ newline @ ''};'')"

definition toSchemaName :: "string \<Rightarrow> string" where
  "toSchemaName tn = map toLowerChar (take 1 tn) @ drop 1 tn @ ''Schema''"

fun typeToZod :: "InferredType \<Rightarrow> GenerateSettings \<Rightarrow> string" where
  "typeToZod (Primitive k) settings =
     (case k of PString \<Rightarrow> ''z.string()'' | PNumber \<Rightarrow> ''z.number()''
              | PBoolean \<Rightarrow> ''z.boolean()'' | PNull \<Rightarrow> ''z.null()'')"
| "typeToZod Unknown settings = ''z.unknown()''"
| "typeToZod DateString settings =
     (if g_detectDates settings then ''z.string().datetime()'' else ''z.string()'')"
| "typeToZod (Array elementType) settings = ''z.array('' @ typeToZod elementType settings @ '')''"
| "typeToZod (UnionT vs) settings =
     (let variants = map (\<lambda>v. typeToZod v settings) vs
      in if length variants = 2 then ''z.union(['' @ join '', '' variants @ ''])''
         else ''z.union(['' @ join '', '' variants @ ''])'')"
| "typeToZod (Object ob) settings = toSchemaName (typeName ob)"

definition schemaField :: "GenerateSettings \<Rightarrow> string \<times> PropertyInfo \<Rightarrow> string" where
  "schemaField settings entry =
     (case entry of (key, prop) \<Rightarrow>
        (let zodType = typeToZod (ptype prop) settings;
             zodType1 = (if nullable prop then zodType @ ''.nullable()'' else zodType);
             zodType2 = (if optional prop then zodType1 @ ''.optional()'' else zodType1)
         in ''  '' @ key @ '': '' @ zodType2 @ '',''))"

definition generateObjectSchema :: "ObjectType \<Rightarrow> GenerateSettings \<Rightarrow> string" where
  "generateObjectSchema obj settings =
     (let entries = properties obj;
          fields = map (schemaField settings) entries;
          strict = (if strictObjects settings then ''.strict()'' else '''');
          schemaName = toSchemaName (typeName obj)
      in ''export const '' @ schemaName @ '' = z.object({'' @ newline
           @ join newline fields @ newline @ ''})'' @ strict @ '';'')"

text \<open>
  \<open>generateValue\<close>. For a union without variants \<open>type.variants[0]\<close> is \<open>undefined\<close>
  and the recursive call throws a \<open>TypeError\<close> when it reads \<open>type.kind\<close>: the result
  is a sum, and an error in a field of an object is the error of the object.
\<close>

datatype GenError = TypeError

fun collectResults :: "(GenError + string) list \<Rightarrow> GenError + string list" where
  "collectResults [] = Inr []"
| "collectResults (Inl e # rs) = Inl e"
| "collectResults (Inr x # rs) = (case collectResults rs of Inl e \<Rightarrow> Inl e | Inr xs \<Rightarrow> Inr (x # xs))"

definition repeatSpaces :: "nat \<Rightarrow> string" where
  "repeatSpaces indent = concat (replicate indent ''  '')"

definition exampleField :: "GenerateSettings \<Rightarrow> nat \<Rightarrow> string \<Rightarrow> string \<Rightarrow> string" where
  "exampleField settings indent key val =
     repeatSpaces (indent + 1) @ tsKeyOf settings key @ '': '' @ val @ '',''"

function (sequential) generateValue :: "InferredType \<Rightarrow> GenerateSettings \<Rightarrow> nat \<Rightarrow> GenError + string" where
  "generateValue (Primitive k) settings indent =
     Inr (case k of PString \<Rightarrow> [CHR 0x22, CHR 0x22] | PNumber \<Rightarrow> ''0''
                  | PBoolean \<Rightarrow> ''false'' | PNull \<Rightarrow> ''null'')"
| "generateValue Unknown settings indent = Inr ''undefined''"
| "generateValue DateString settings indent =
     Inr ([CHR 0x22] @ ''2025-01-01T00:00:00.000Z'' @ [CHR 0x22])"
| "generateValue (Array elementType) settings indent =
     (case generateValue elementType settings indent of
        Inl e \<Rightarrow> Inl e
      | Inr v \<Rightarrow> Inr (''['' @ v @ '']''))"
| "generateValue (UnionT variants) settings indent =
     (case find (\<lambda>v. \<not> isNullPrimitive v) variants of
        Some nonNull \<Rightarrow> generateValue nonNull settings indent
      | None \<Rightarrow> (case variants of
                   [] \<Rightarrow> Inl TypeError
                 | v # _ \<Rightarrow> generateValue v settings indent))"
| "generateValue (Object ob) settings indent =
     (let entries = properties ob
      in if length entries = 0 then Inr ''{}''
         else case collectResults (map (\<lambda>(key, prop).
                     case (if nullable prop then Inr ''null''
                           else generateValue (ptype prop) settings (indent + 1)) of
                       Inl e \<Rightarrow> Inl e
                     | Inr val \<Rightarrow> Inr (exampleField settings indent key val)) entries) of
                Inl e \<Rightarrow> Inl e
              | Inr fieldLines \<Rightarrow>
                  Inr (''{'' @ newline @ join newline fieldLines @ newline @ repeatSpaces indent @ ''}''))"
  by pat_completeness auto
termination
proof -
  have fnd: "size v < Suc (size_list size vs)"
    if "find P vs = Some v" for P and v :: InferredType and vs
  proof -
    from that have "v \<in> set vs" by (auto simp: find_Some_iff)
    then have "size v \<le> size_list size vs" by (rule size_list_estimation') simp
    then show ?thesis by simp
  qed
  have prp: "size (ptype pinfo) < Suc (size ob)"
    if "(key, pinfo) \<in> set (properties ob)" for key pinfo ob
  proof -
    from that have "size_prod (\<lambda>_. 0) size (key, pinfo)
        \<le> size_list (size_prod (\<lambda>_. 0) size) (properties ob)"
      by (rule size_list_estimation') simp
    then show ?thesis by (cases ob; cases pinfo) simp
  qed
  show ?thesis
    by (relation "measure (\<lambda>(t, settings, indent). size t)") (auto simp: fnd prp)
qed

section \<open>Notions used in the statements\<close>

text \<open>The test \<open>typesEqual\<close> applies to the two entries of one key of two objects.\<close>

definition propsEqual :: "ObjectType \<Rightarrow> ObjectType \<Rightarrow> string \<Rightarrow> bool" where
  "propsEqual a b k = (case (getProp (properties a) k, getProp (properties b) k) of
                   (Some pa, Some pb) \<Rightarrow> typesEqual (ptype pa) (ptype pb)
                 | _ \<Rightarrow> False)"

text \<open>
  Pairwise structural distinctness of a list of types: no element is \<open>typesEqual\<close> to a
  later one (\<open>structurallyDistinct_nth\<close> gives the form with two indices).
\<close>

fun structurallyDistinct :: "InferredType list \<Rightarrow> bool" where
  "structurallyDistinct [] = True"
| "structurallyDistinct (t # ts) = (\<not> list_ex (typesEqual t) ts \<and> structurallyDistinct ts)"

text \<open>The list that \<open>mergeTypes\<close> unwraps or wraps in a union.\<close>

definition finalTypes :: "InferredType list \<Rightarrow> InferredType list" where
  "finalTypes types =
     (let deduped = deduplicateTypes (flattenUnions types);
          meaningful = filter (\<lambda>t. \<not> isUnknown t) deduped
      in if length meaningful > 0 then meaningful else deduped)"

text \<open>
  A union in the form \<open>mergeTypes\<close> produces: not a singleton, none of its variants a
  union or \<open>Unknown\<close>, the variants pairwise distinct. Every other type counts as normal.
\<close>

definition normalUnion :: "InferredType \<Rightarrow> bool" where
  "normalUnion t =
     (case t of
        UnionT vs \<Rightarrow> length vs \<noteq> 1 \<and> list_all (\<lambda>v. \<not> isUnion v \<and> \<not> isUnknown v) vs
                      \<and> structurallyDistinct vs
      | _ \<Rightarrow> True)"

text \<open>
  The entries of a key in a list of objects, in the order of the objects, and the number of
  objects that have the key.
\<close>

fun occurrences :: "string \<Rightarrow> ObjectType list \<Rightarrow> PropertyInfo list" where
  "occurrences key [] = []"
| "occurrences key (obj # objs) =
     (case getProp (properties obj) key of
        None \<Rightarrow> occurrences key objs
      | Some p \<Rightarrow> p # occurrences key objs)"

definition presentCount :: "string \<Rightarrow> ObjectType list \<Rightarrow> nat" where
  "presentCount key objects = length (filter (\<lambda>obj. key \<in> set (keys (properties obj))) objects)"

text \<open>
  Every union node of a type has pairwise structurally distinct variants, none of them a
  union; the same for an object, a property, the two lists \<open>inferElements\<close> builds and a
  property map.
\<close>

fun wfUnions :: "InferredType \<Rightarrow> bool"
and wfUnionsObject :: "ObjectType \<Rightarrow> bool"
and wfUnionsProperty :: "PropertyInfo \<Rightarrow> bool" where
  "wfUnions (Primitive k) = True"
| "wfUnions Unknown = True"
| "wfUnions DateString = True"
| "wfUnions (Array elementType) = wfUnions elementType"
| "wfUnions (Object ob) = wfUnionsObject ob"
| "wfUnions (UnionT variants) =
     (list_all (\<lambda>v. \<not> isUnion v) variants \<and> structurallyDistinct variants \<and>
      list_all wfUnions variants)"
| "wfUnionsObject (ObjectType props tn) = list_all (\<lambda>entry. wfUnionsProperty (snd entry)) props"
| "wfUnionsProperty (PropertyInfo t opt nul) = wfUnions t"

definition accWf :: "ObjectType list \<times> InferredType list \<Rightarrow> bool" where
  "accWf acc = ((\<forall>ob\<in>set (fst acc). wfUnionsObject ob) \<and> (\<forall>t\<in>set (snd acc). wfUnions t))"

definition propsWf :: "PropertyMap \<Rightarrow> bool" where
  "propsWf props = (\<forall>entry\<in>set props. wfUnions (ptype (snd entry)))"




text \<open>The settings of the test suite; values that pass the root check; the base name of a path.\<close>

definition DEFAULT_SETTINGS :: InferSettings where
  "DEFAULT_SETTINGS = \<lparr>rootTypeName = ''Root'', detectDates = False\<rparr>"


definition candidateName :: "string list \<Rightarrow> string" where
  "candidateName pathSegments =
     (let base = concat (map toPascalCase pathSegments) in if base = [] then ''Root'' else base)"

text \<open>
  \<open>containsText s x\<close>: the text \<open>x\<close> occurs in \<open>s\<close> (\<open>containsText_iff\<close>), the
  \<open>toContain\<close> of the generator tests.
\<close>

fun isPrefixOf :: "string \<Rightarrow> string \<Rightarrow> bool" where
  "isPrefixOf [] s = True"
| "isPrefixOf (x # xs) [] = False"
| "isPrefixOf (x # xs) (y # ys) = (x = y \<and> isPrefixOf xs ys)"

fun containsText :: "string \<Rightarrow> string \<Rightarrow> bool" where
  "containsText [] x = (x = [])"
| "containsText (c # s) x = (isPrefixOf x (c # s) \<or> containsText s x)"

text \<open>
  Sample inputs: generator settings with \<open>snakeToCamel\<close> set, an object with a
  snake_case key and one whose key has a digit after the underscore; the three objects of
  the optional-detection test as \<open>inferObject\<close> returns them; two structurally equal
  objects.
\<close>

definition SNAKE_SETTINGS :: GenerateSettings where
  "SNAKE_SETTINGS = \<lparr>g_rootTypeName = ''Root'', outputStyle = TypeAlias, strictObjects = False,
     g_detectDates = False, snakeToCamelOn = True\<rparr>"

definition snakeObject :: ObjectType where
  "snakeObject = ObjectType
     [(''user_name'', PropertyInfo (Primitive PString) False False),
      (''id'', PropertyInfo (Primitive PNumber) False False)] ''Root''"

definition lineObject :: ObjectType where
  "lineObject = ObjectType [(''line_1'', PropertyInfo (Primitive PString) False False)] ''Root''"

definition scenarioB :: "ObjectType list" where
  "scenarioB =
     [ObjectType [(''id'', PropertyInfo (Primitive PNumber) False False),
                  (''name'', PropertyInfo (Primitive PString) False False),
                  (''phone'', PropertyInfo (Primitive PString) False False)] ''Root'',
      ObjectType [(''id'', PropertyInfo (Primitive PNumber) False False),
                  (''name'', PropertyInfo (Primitive PString) False False)] ''Root2'',
      ObjectType [(''id'', PropertyInfo (Primitive PNumber) False False),
                  (''name'', PropertyInfo (Primitive PString) False False),
                  (''phone'', PropertyInfo (Primitive PString) False False)] ''Root3'']"


text \<open>
  No union node is empty. The example emitter reads the first variant of a union, which an
  empty union does not have.
\<close>

fun nonEmptyUnions :: "InferredType \<Rightarrow> bool"
and nonEmptyUnionsObject :: "ObjectType \<Rightarrow> bool"
and nonEmptyUnionsProperty :: "PropertyInfo \<Rightarrow> bool" where
  "nonEmptyUnions (Primitive k) = True"
| "nonEmptyUnions Unknown = True"
| "nonEmptyUnions DateString = True"
| "nonEmptyUnions (Array elementType) = nonEmptyUnions elementType"
| "nonEmptyUnions (Object ob) = nonEmptyUnionsObject ob"
| "nonEmptyUnions (UnionT variants) = (variants \<noteq> [] \<and> list_all nonEmptyUnions variants)"
| "nonEmptyUnionsObject (ObjectType props tn) = list_all (\<lambda>entry. nonEmptyUnionsProperty (snd entry)) props"
| "nonEmptyUnionsProperty (PropertyInfo t opt nul) = nonEmptyUnions t"

definition accNe :: "ObjectType list \<times> InferredType list \<Rightarrow> bool" where
  "accNe acc = (list_all nonEmptyUnionsObject (fst acc) \<and> list_all nonEmptyUnions (snd acc))"

definition propsNe :: "PropertyMap \<Rightarrow> bool" where
  "propsNe props = list_all (\<lambda>entry. nonEmptyUnions (ptype (snd entry))) props"

section \<open>Properties\<close>

subsection \<open>Structural equality\<close>

lemma list_all2_eq_conj:
  "list_all2 (\<lambda>x y. x = y \<and> Q x) xs ys \<longleftrightarrow> xs = ys \<and> list_all Q xs"
proof (induction xs arbitrary: ys)
  case Nil
  then show ?case by auto
next
  case (Cons x xs)
  then show ?case by (cases ys) auto
qed

lemma typesEqual_Object:
  "typesEqual (Object a) (Object b) \<longleftrightarrow>
     sort (keys (properties a)) = sort (keys (properties b)) \<and>
     (\<forall>k \<in> set (keys (properties a)). propsEqual a b k)"
proof -
  have "sort (keys (properties a)) = sort (keys (properties b)) \<Longrightarrow>
        length (keys (properties a)) = length (keys (properties b))"
    by (metis length_sort)
  then show ?thesis
    by (auto simp: Let_def list_all2_eq_conj list_all_iff propsEqual_def)
qed

lemma getProp_Some_iff: "k \<in> set (keys m) \<longleftrightarrow> (\<exists>p. getProp m k = Some p)"
  unfolding keys_def getProp_def
  by (metis domIff dom_map_of_conv_image_fst not_None_eq set_map)

lemma getProp_SomeD: "getProp m k = Some p \<Longrightarrow> (k, p) \<in> set m"
  unfolding getProp_def by (rule map_of_SomeD)

lemma typesEqual_refl_aux:
  "typesEqual t t" 
  "\<forall>k p. getProp (properties ob) k = Some p \<longrightarrow> typesEqual (ptype p) (ptype p)"
  "typesEqual (ptype pi) (ptype pi)"
proof (induction t and ob and pi)
  case (Primitive x)
  then show ?case by simp
next
  case (Array x)
  then show ?case by simp
next
  case (Object x)
  then show ?case
    unfolding typesEqual_Object propsEqual_def
    by (auto simp: getProp_Some_iff)
next
  case (UnionT x)
  then show ?case by (simp add: list_all2_same)
next
  case Unknown
  then show ?case by simp
next
  case DateString
  then show ?case by simp
next
  case (ObjectType x1 x2)
  then show ?case by (fastforce dest!: getProp_SomeD)
next
  case (PropertyInfo x1 x2 x3)
  then show ?case by simp
qed

lemma typesEqual_symD: "typesEqual a b \<Longrightarrow> typesEqual b a"
proof (induction a b rule: typesEqual.induct)
  case (5 as bs)
  then show ?case
    by (auto simp: list_all2_conv_all_nth split: if_splits)
next
  case (6 a b)
  have s: "sort (keys (properties a)) = sort (keys (properties b))"
    using 6(2) unfolding typesEqual_Object by simp
  then have ss: "set (keys (properties a)) = set (keys (properties b))"
    by (metis set_sort)
  have "propsEqual b a k" if k: "k \<in> set (keys (properties b))" for k
  proof -
    from k ss have ka: "k \<in> set (keys (properties a))" by simp
    with 6(2) have pe: "propsEqual a b k" unfolding typesEqual_Object by simp
    then obtain pa pb where pa: "getProp (properties a) k = Some pa"
      and pb: "getProp (properties b) k = Some pb" and te: "typesEqual (ptype pa) (ptype pb)"
      unfolding propsEqual_def by (auto split: option.splits)
    have "typesEqual (ptype pb) (ptype pa)"
      using 6(1)[OF refl refl _ _ _ refl pa pb te] s ka k by simp
    then show ?thesis unfolding propsEqual_def using pa pb by simp
  qed
  then show ?case unfolding typesEqual_Object using s by simp
qed simp_all


lemma typesEqual_transD: "typesEqual a b \<Longrightarrow> typesEqual b c \<Longrightarrow> typesEqual a c"
proof (induction a b arbitrary: c rule: typesEqual.induct)
  case (4 a b)
  then show ?case by (cases c) auto
next
  case (5 as bs)
  from 5(3) obtain cs where c: "c = UnionT cs" by (cases c) auto
  from 5(2) have ab: "length as = length bs" "list_all2 typesEqual as bs"
    by (auto split: if_splits)
  from 5(3) c have bc: "length bs = length cs" "list_all2 typesEqual bs cs"
    by (auto split: if_splits)
  have "typesEqual (as ! i) (cs ! i)" if i: "i < length as" for i
  proof -
    have 1: "typesEqual (as ! i) (bs ! i)" using ab i by (simp add: list_all2_conv_all_nth)
    have 2: "typesEqual (bs ! i) (cs ! i)" using ab bc i by (simp add: list_all2_conv_all_nth)
    show ?thesis using 5(1)[OF _ _ _ 1 2] ab i by simp
  qed
  then show ?case using c ab bc by (simp add: list_all2_conv_all_nth)
next
  case (6 a b)
  from 6(3) obtain d where c: "c = Object d" by (cases c) auto
  have bd: "typesEqual (Object b) (Object d)" using 6(3) c by simp
  have s: "sort (keys (properties a)) = sort (keys (properties b))"
    using 6(2) unfolding typesEqual_Object by simp
  have s': "sort (keys (properties b)) = sort (keys (properties d))"
    using bd unfolding typesEqual_Object by simp
  have ss: "set (keys (properties a)) = set (keys (properties b))"
    using s by (metis set_sort)
  have "propsEqual a d k" if ka: "k \<in> set (keys (properties a))" for k
  proof -
    from ka ss have kb: "k \<in> set (keys (properties b))" by simp
    from ka 6(2) have "propsEqual a b k" unfolding typesEqual_Object by simp
    then obtain pa pb where pa: "getProp (properties a) k = Some pa"
      and pb: "getProp (properties b) k = Some pb" and te: "typesEqual (ptype pa) (ptype pb)"
      unfolding propsEqual_def by (auto split: option.splits)
    from kb bd have "propsEqual b d k" unfolding typesEqual_Object by simp
    then obtain pd where pd: "getProp (properties d) k = Some pd"
      and te': "typesEqual (ptype pb) (ptype pd)"
      unfolding propsEqual_def using pb by (auto split: option.splits)
    have "typesEqual (ptype pa) (ptype pd)"
      using 6(1)[OF refl refl _ _ _ refl pa pb te te'] s ka kb by simp
    then show ?thesis unfolding propsEqual_def using pa pd by simp
  qed
  then show ?case unfolding c typesEqual_Object using s s' by simp
qed simp_all

text \<open>
  C10. \<open>typesEqual\<close> is an equivalence relation on \<open>InferredType\<close>: it is reflexive,
  it gives the same answer with its arguments swapped, and it is transitive.
\<close>

theorem typesEqual_equivalence:
  "typesEqual a a \<and> typesEqual a b = typesEqual b a \<and>
   (typesEqual a b \<longrightarrow> typesEqual b c \<longrightarrow> typesEqual a c)"
  using typesEqual_refl_aux(1) typesEqual_symD typesEqual_transD by blast

theorem typesEqual_equivalence_witness:
  "typesEqual
     (Object (ObjectType [(''id'', PropertyInfo (Primitive PNumber) False False),
        (''tags'', PropertyInfo (Array (UnionT [Primitive PString, Unknown])) True False)] ''A''))
     (Object (ObjectType [(''tags'', PropertyInfo (Array (UnionT [Primitive PString, Unknown])) False True),
        (''id'', PropertyInfo (Primitive PNumber) False False)] ''B'')) \<and>
   typesEqual
     (Object (ObjectType [(''tags'', PropertyInfo (Array (UnionT [Primitive PString, Unknown])) False True),
        (''id'', PropertyInfo (Primitive PNumber) False False)] ''B''))
     (Object (ObjectType [(''id'', PropertyInfo (Primitive PNumber) True True),
        (''tags'', PropertyInfo (Array (UnionT [Primitive PString, Unknown])) False False)] ''C'')) \<and>
   typesEqual
     (Object (ObjectType [(''id'', PropertyInfo (Primitive PNumber) False False),
        (''tags'', PropertyInfo (Array (UnionT [Primitive PString, Unknown])) True False)] ''A''))
     (Object (ObjectType [(''id'', PropertyInfo (Primitive PNumber) True True),
        (''tags'', PropertyInfo (Array (UnionT [Primitive PString, Unknown])) False False)] ''C''))"
proof -
  have ab: "typesEqual
     (Object (ObjectType [(''id'', PropertyInfo (Primitive PNumber) False False),
        (''tags'', PropertyInfo (Array (UnionT [Primitive PString, Unknown])) True False)] ''A''))
     (Object (ObjectType [(''tags'', PropertyInfo (Array (UnionT [Primitive PString, Unknown])) False True),
        (''id'', PropertyInfo (Primitive PNumber) False False)] ''B''))"
    by code_simp
  have bc: "typesEqual
     (Object (ObjectType [(''tags'', PropertyInfo (Array (UnionT [Primitive PString, Unknown])) False True),
        (''id'', PropertyInfo (Primitive PNumber) False False)] ''B''))
     (Object (ObjectType [(''id'', PropertyInfo (Primitive PNumber) True True),
        (''tags'', PropertyInfo (Array (UnionT [Primitive PString, Unknown])) False False)] ''C''))"
    by code_simp
  from ab bc typesEqual_equivalence show ?thesis by blast
qed

subsection \<open>Merging types\<close>

lemma typesEqual_refl: "typesEqual t t"
  by (rule typesEqual_refl_aux(1))

lemma structurallyDistinct_snoc:
  "structurallyDistinct (xs @ [t]) \<longleftrightarrow> structurallyDistinct xs \<and> (\<forall>r\<in>set xs. \<not> typesEqual r t)"
  by (induction xs) (auto simp: list_ex_iff)

lemma structurallyDistinct_append:
  "structurallyDistinct (xs @ ys) \<longleftrightarrow>
     structurallyDistinct xs \<and> structurallyDistinct ys \<and> (\<forall>r\<in>set xs. \<forall>t\<in>set ys. \<not> typesEqual r t)"
  by (induction xs) (auto simp: list_ex_iff)

lemma structurallyDistinct_filter:
  "structurallyDistinct xs \<Longrightarrow> structurallyDistinct (filter P xs)"
  by (induction xs) (auto simp: list_ex_iff)

lemma structurallyDistinct_nth:
  "structurallyDistinct xs \<longleftrightarrow>
     (\<forall>i<length xs. \<forall>j<length xs. i \<noteq> j \<longrightarrow> \<not> typesEqual (xs ! i) (xs ! j))"
proof (induction xs)
  case Nil
  then show ?case by simp
next
  case (Cons x xs)
  show ?case
  proof
    assume a: "structurallyDistinct (x # xs)"
    then have d: "\<forall>i<length xs. \<forall>j<length xs. i \<noteq> j \<longrightarrow> \<not> typesEqual (xs ! i) (xs ! j)"
      and h: "\<forall>t\<in>set xs. \<not> typesEqual x t"
      using Cons.IH by (auto simp: list_ex_iff)
    show "\<forall>i<length (x # xs). \<forall>j<length (x # xs). i \<noteq> j \<longrightarrow> \<not> typesEqual ((x # xs) ! i) ((x # xs) ! j)"
    proof (intro allI impI)
      fix i j assume i: "i < length (x # xs)" and j: "j < length (x # xs)" and ij: "i \<noteq> j"
      show "\<not> typesEqual ((x # xs) ! i) ((x # xs) ! j)"
      proof (cases i)
        case 0
        then obtain j' where "j = Suc j'" using ij by (cases j) auto
        then show ?thesis using 0 h j by auto
      next
        case (Suc i')
        show ?thesis
        proof (cases j)
          case 0
          have "xs ! i' \<in> set xs" using \<open>i = Suc i'\<close> i by simp
          then have "\<not> typesEqual x (xs ! i')" using h by blast
          then show ?thesis using 0 \<open>i = Suc i'\<close> typesEqual_symD by auto
        next
          case (Suc j')
          then show ?thesis using \<open>i = Suc i'\<close> d i j ij by auto
        qed
      qed
    qed
  next
    assume a: "\<forall>i<length (x # xs). \<forall>j<length (x # xs). i \<noteq> j \<longrightarrow> \<not> typesEqual ((x # xs) ! i) ((x # xs) ! j)"
    have "\<not> typesEqual x t" if "t \<in> set xs" for t
    proof -
      from that obtain j where "j < length xs" "xs ! j = t" by (auto simp: in_set_conv_nth)
      then show ?thesis using a[rule_format, of 0 "Suc j"] by auto
    qed
    moreover have "\<forall>i<length xs. \<forall>j<length xs. i \<noteq> j \<longrightarrow> \<not> typesEqual (xs ! i) (xs ! j)"
    proof (intro allI impI)
      fix i j assume "i < length xs" "j < length xs" "i \<noteq> j"
      then show "\<not> typesEqual (xs ! i) (xs ! j)" using a[rule_format, of "Suc i" "Suc j"] by auto
    qed
    ultimately show "structurallyDistinct (x # xs)" using Cons.IH by (auto simp: list_ex_iff)
  qed
qed

lemma flattenUnions_noUnion: "t \<in> set (flattenUnions ts) \<Longrightarrow> \<not> isUnion t"
  by (induction ts arbitrary: t rule: flattenUnions.induct) (auto simp: isUnion_def)

lemma flattenUnions_id: "\<forall>t\<in>set ts. \<not> isUnion t \<Longrightarrow> flattenUnions ts = ts"
  by (induction ts rule: flattenUnions.induct) (auto simp: isUnion_def)

lemma flattenUnions_append: "flattenUnions (xs @ ys) = flattenUnions xs @ flattenUnions ys"
  by (induction xs rule: flattenUnions.induct) auto

lemma flattenUnions_Nil_iff: "\<forall>t\<in>set ts. \<not> isUnion t \<Longrightarrow> flattenUnions ts = [] \<longleftrightarrow> ts = []"
  by (simp add: flattenUnions_id)

lemma dedupStep_set: "set (dedupStep a acc) \<subseteq> set acc \<union> {a}" "set acc \<subseteq> set (dedupStep a acc)"
  by (auto simp: dedupStep_def)

lemma dedup_fold_subset: "set (fold dedupStep ts acc) \<subseteq> set acc \<union> set ts"
proof (induction ts arbitrary: acc)
  case Nil
  then show ?case by simp
next
  case (Cons a ts)
  show ?case using Cons[of "dedupStep a acc"] dedupStep_set(1)[of a acc] by auto
qed

lemma dedup_fold_acc: "set acc \<subseteq> set (fold dedupStep ts acc)"
proof (induction ts arbitrary: acc)
  case Nil
  then show ?case by simp
next
  case (Cons a ts)
  show ?case using Cons[of "dedupStep a acc"] dedupStep_set(2)[of acc a] by auto
qed

lemma dedup_fold_distinct:
  "structurallyDistinct acc \<Longrightarrow> structurallyDistinct (fold dedupStep ts acc)"
  by (induction ts arbitrary: acc) (auto simp: dedupStep_def structurallyDistinct_snoc list_ex_iff)

lemma dedup_fold_cover:
  "t \<in> set ts \<Longrightarrow> \<exists>r\<in>set (fold dedupStep ts acc). typesEqual r t"
proof (induction ts arbitrary: acc)
  case Nil
  then show ?case by simp
next
  case (Cons a ts)
  show ?case
  proof (cases "t = a")
    case True
    have "\<exists>r\<in>set (dedupStep a acc). typesEqual r a"
      by (auto simp: dedupStep_def list_ex_iff typesEqual_refl)
    then show ?thesis using True dedup_fold_acc[of "dedupStep a acc" ts] by auto
  next
    case False
    then show ?thesis using Cons by auto
  qed
qed

lemma dedup_fold_keep:
  "structurallyDistinct (acc @ ts) \<Longrightarrow> fold dedupStep ts acc = acc @ ts"
proof (induction ts arbitrary: acc)
  case Nil
  then show ?case by simp
next
  case (Cons a ts)
  from Cons.prems have "\<forall>r\<in>set acc. \<not> typesEqual r a"
    by (auto simp: structurallyDistinct_append list_ex_iff)
  then have "dedupStep a acc = acc @ [a]" by (auto simp: dedupStep_def list_ex_iff)
  then show ?case using Cons.IH[of "acc @ [a]"] Cons.prems by simp
qed

lemma dedup_fold_drop:
  "\<forall>t\<in>set ts. \<exists>r\<in>set acc. typesEqual r t \<Longrightarrow> fold dedupStep ts acc = acc"
  by (induction ts arbitrary: acc) (auto simp: dedupStep_def list_ex_iff)

lemma dedup_fold_append: "fold dedupStep (xs @ ys) acc = fold dedupStep ys (fold dedupStep xs acc)"
  by simp

lemma deduplicateTypes_subset: "set (deduplicateTypes ts) \<subseteq> set ts"
  using dedup_fold_subset[of ts "[]"] by (simp add: deduplicateTypes_def)

lemma deduplicateTypes_distinct: "structurallyDistinct (deduplicateTypes ts)"
  by (simp add: deduplicateTypes_def dedup_fold_distinct)

lemma deduplicateTypes_cover: "t \<in> set ts \<Longrightarrow> \<exists>r\<in>set (deduplicateTypes ts). typesEqual r t"
  by (simp add: deduplicateTypes_def dedup_fold_cover)

lemma deduplicateTypes_keep: "structurallyDistinct ts \<Longrightarrow> deduplicateTypes ts = ts"
  using dedup_fold_keep[of "[]" ts] by (simp add: deduplicateTypes_def)

lemma deduplicateTypes_Nil_iff: "deduplicateTypes ts = [] \<longleftrightarrow> ts = []"
proof (cases ts)
  case Nil
  then show ?thesis by (simp add: deduplicateTypes_def)
next
  case (Cons a list)
  then have "\<exists>r\<in>set (deduplicateTypes ts). typesEqual r a"
    using deduplicateTypes_cover[of a ts] by simp
  then show ?thesis using Cons by auto
qed

lemma mergeTypes_finalTypes:
  "types \<noteq> [] \<Longrightarrow> mergeTypes types = (case finalTypes types of [t] \<Rightarrow> t | _ \<Rightarrow> UnionT (finalTypes types))"
  unfolding mergeTypes_def finalTypes_def Let_def by (auto split: list.splits)

lemma finalTypes_subset: "set (finalTypes ts) \<subseteq> set (flattenUnions ts)"
  using deduplicateTypes_subset[of "flattenUnions ts"] by (auto simp: finalTypes_def Let_def)

lemma finalTypes_noUnion: "t \<in> set (finalTypes ts) \<Longrightarrow> \<not> isUnion t"
  using finalTypes_subset flattenUnions_noUnion by blast

lemma finalTypes_distinct: "structurallyDistinct (finalTypes ts)"
  by (simp add: finalTypes_def Let_def deduplicateTypes_distinct structurallyDistinct_filter)

lemma mergeTypes_cases:
  "mergeTypes ts = Unknown \<and> ts = [] \<or>
   (\<exists>t. finalTypes ts = [t] \<and> mergeTypes ts = t \<and> ts \<noteq> []) \<or>
   (length (finalTypes ts) \<noteq> 1 \<and> mergeTypes ts = UnionT (finalTypes ts) \<and> ts \<noteq> [])"
proof (cases "ts = []")
  case True
  then show ?thesis by (simp add: mergeTypes_def)
next
  case False
  then show ?thesis
    by (cases "finalTypes ts" rule: list.exhaust; cases "tl (finalTypes ts)")
       (auto simp: mergeTypes_finalTypes)
qed

lemma mergeTypes_Union_iff:
  "mergeTypes ts = UnionT vs \<longleftrightarrow> ts \<noteq> [] \<and> finalTypes ts = vs \<and> length vs \<noteq> 1"
  using mergeTypes_cases[of ts] finalTypes_noUnion[of "UnionT vs" ts]
  by (auto simp: isUnion_def)

lemma typesEqual_isUnion: "typesEqual a b \<Longrightarrow> isUnion a = isUnion b"
  by (cases a; cases b) (auto simp: isUnion_def)

lemma typesEqual_UnionD:
  "typesEqual (UnionT vs) t \<Longrightarrow> \<exists>ws. t = UnionT ws \<and> list_all2 typesEqual vs ws"
  by (cases t) (auto split: if_splits)

lemma list_all2_right_ex: "list_all2 P vs ws \<Longrightarrow> w \<in> set ws \<Longrightarrow> \<exists>v\<in>set vs. P v w"
  by (induction rule: list_all2_induct) auto

lemma finalTypes_plain:
  assumes "\<forall>t\<in>set ts. \<not> isUnion t \<and> \<not> isUnknown t" "structurallyDistinct ts"
  shows "finalTypes ts = ts"
proof -
  have "flattenUnions ts = ts" using assms(1) by (simp add: flattenUnions_id)
  moreover have "deduplicateTypes ts = ts" using assms(2) by (rule deduplicateTypes_keep)
  moreover have "filter (\<lambda>t. \<not> isUnknown t) ts = ts" using assms(1) by (simp add: filter_id_conv)
  ultimately show ?thesis by (simp add: finalTypes_def Let_def)
qed

lemma mergeTypes_distinct:
  assumes "2 \<le> length ts" "\<forall>t\<in>set ts. \<not> isUnion t \<and> \<not> isUnknown t" "structurallyDistinct ts"
  shows "mergeTypes ts = UnionT ts"
proof -
  have "finalTypes ts = ts" using assms(2,3) by (rule finalTypes_plain)
  then show ?thesis using assms(1) by (simp add: mergeTypes_Union_iff) auto
qed

lemma finalTypes_singleton:
  assumes "deduplicateTypes (flattenUnions ts) = [h]"
  shows "finalTypes ts = [h]"
  using assms by (auto simp: finalTypes_def Let_def)

lemma mergeTypes_equal_plain:
  assumes "ts \<noteq> []" "\<forall>t\<in>set ts. typesEqual (hd ts) t" "\<not> isUnion (hd ts)"
  shows "mergeTypes ts = hd ts"
proof -
  obtain h rest where ts: "ts = h # rest" using assms(1) by (cases ts) auto
  have nu: "\<forall>t\<in>set ts. \<not> isUnion t"
    using assms(2,3) typesEqual_isUnion by blast
  then have f: "flattenUnions ts = ts" by (simp add: flattenUnions_id)
  have "fold dedupStep rest [h] = [h]"
    using assms(2) ts by (intro dedup_fold_drop) auto
  then have "deduplicateTypes ts = [h]" by (simp add: deduplicateTypes_def ts dedupStep_def)
  then have "finalTypes ts = [h]" using f by (simp add: finalTypes_singleton)
  then show ?thesis using ts by (simp add: mergeTypes_finalTypes)
qed

lemma flatten_equal_unions:
  assumes "\<forall>v\<in>set vs. \<not> isUnion v"
    and "\<forall>t\<in>set rest. \<exists>ws. t = UnionT ws \<and> list_all2 typesEqual vs ws"
    and "w \<in> set (flattenUnions rest)"
  shows "\<exists>v\<in>set vs. typesEqual v w"
  using assms(2,3)
proof (induction rest)
  case Nil
  then show ?case by simp
next
  case (Cons t rest)
  from Cons.prems(1) have "\<exists>ws. t = UnionT ws \<and> list_all2 typesEqual vs ws" by simp
  then obtain ws where t: "t = UnionT ws" and l: "list_all2 typesEqual vs ws" by blast
  from Cons.prems(1) have r: "\<forall>t\<in>set rest. \<exists>ws. t = UnionT ws \<and> list_all2 typesEqual vs ws"
    by simp
  have "\<not> isUnion x" if "x \<in> set ws" for x
  proof -
    from list_all2_right_ex[OF l that] obtain v where "v \<in> set vs" "typesEqual v x"
      by blast
    then show "\<not> isUnion x" using assms(1) typesEqual_isUnion by blast
  qed
  then have fw: "flattenUnions ws = ws" by (simp add: flattenUnions_id)
  have "flattenUnions (t # rest) = ws @ flattenUnions rest" unfolding t by (simp add: fw)
  with Cons.prems(2) have "w \<in> set ws \<or> w \<in> set (flattenUnions rest)" by simp
  then show ?case
  proof
    assume "w \<in> set ws"
    then show ?thesis by (rule list_all2_right_ex[OF l])
  next
    assume "w \<in> set (flattenUnions rest)"
    then show ?thesis using Cons.IH[OF r] by blast
  qed
qed

lemma mergeTypes_equal_union:
  assumes "ts \<noteq> []" "\<forall>t\<in>set ts. typesEqual (hd ts) t" "hd ts = UnionT vs" "normalUnion (hd ts)"
  shows "mergeTypes ts = hd ts"
proof -
  obtain rest where ts: "ts = UnionT vs # rest" using assms(1,3) by (cases ts) auto
  from assms(3,4) have len: "length vs \<noteq> 1" and plain: "\<forall>v\<in>set vs. \<not> isUnion v \<and> \<not> isUnknown v"
    and dist: "structurallyDistinct vs"
    by (auto simp: normalUnion_def list_all_iff)
  have rest: "\<forall>t\<in>set rest. \<exists>ws. t = UnionT ws \<and> list_all2 typesEqual vs ws"
    using assms(2) ts typesEqual_UnionD by auto
  have fv: "flattenUnions vs = vs" using plain by (simp add: flattenUnions_id)
  have f: "flattenUnions ts = vs @ flattenUnions rest" using ts fv by simp
  have "fold dedupStep vs [] = vs" using dedup_fold_keep[of "[]" vs] dist by simp
  moreover have "fold dedupStep (flattenUnions rest) vs = vs"
    using flatten_equal_unions[OF _ rest] plain by (intro dedup_fold_drop) blast
  ultimately have d: "deduplicateTypes (flattenUnions ts) = vs"
    by (simp add: deduplicateTypes_def f)
  have "filter (\<lambda>t. \<not> isUnknown t) vs = vs" using plain by (simp add: filter_id_conv)
  then have "finalTypes ts = vs" using d by (simp add: finalTypes_def Let_def)
  then show ?thesis using ts len by (simp add: mergeTypes_Union_iff)
qed

lemma mergeTypes_equal:
  assumes "ts \<noteq> []" "\<forall>t\<in>set ts. typesEqual (hd ts) t" "normalUnion (hd ts)"
  shows "mergeTypes ts = hd ts"
proof (cases "isUnion (hd ts)")
  case True
  then obtain vs where "hd ts = UnionT vs" by (cases "hd ts") (auto simp: isUnion_def)
  then show ?thesis using assms mergeTypes_equal_union by blast
next
  case False
  then show ?thesis using assms mergeTypes_equal_plain by blast
qed

text \<open>
  C3, as amended. For every list of two or more pairwise structurally distinct types, none
  of them \<open>Unknown\<close> and none of them a union, \<open>mergeTypes\<close> returns the union of
  exactly these types in their order. For every non-empty list of structurally equal types
  whose first element is not a union, or is a union in normal form, it returns that first
  element. No result of \<open>mergeTypes\<close> is a union of one variant.
\<close>

theorem mergeTypes_distinct_or_equal:
  "(2 \<le> length ts \<and> (\<forall>t\<in>set ts. \<not> isUnion t \<and> \<not> isUnknown t) \<and> structurallyDistinct ts
      \<longrightarrow> mergeTypes ts = UnionT ts) \<and>
   (ts \<noteq> [] \<and> (\<forall>t\<in>set ts. typesEqual (hd ts) t) \<and> normalUnion (hd ts)
      \<longrightarrow> mergeTypes ts = hd ts) \<and>
   (\<forall>vs. mergeTypes ts = UnionT vs \<longrightarrow> length vs \<noteq> 1)"
proof (intro conjI impI allI)
  assume "2 \<le> length ts \<and> (\<forall>t\<in>set ts. \<not> isUnion t \<and> \<not> isUnknown t) \<and> structurallyDistinct ts"
  then show "mergeTypes ts = UnionT ts" by (simp add: mergeTypes_distinct)
next
  assume "ts \<noteq> [] \<and> (\<forall>t\<in>set ts. typesEqual (hd ts) t) \<and> normalUnion (hd ts)"
  then show "mergeTypes ts = hd ts" by (simp add: mergeTypes_equal)
next
  fix vs assume "mergeTypes ts = UnionT vs"
  then show "length vs \<noteq> 1" by (simp add: mergeTypes_Union_iff)
qed

text \<open>
  The claim as stated fails: one distinct type is returned unwrapped and not as a union of
  one variant; a union among two distinct inputs is flattened, so two inputs give three
  variants; a single union holding \<open>Unknown\<close> is not returned as it is.
\<close>

theorem mergeTypes_claim_counterexample:
  "mergeTypes [Primitive PString] = Primitive PString \<and>
   mergeTypes [UnionT [Primitive PString, Primitive PNumber], Primitive PBoolean]
     = UnionT [Primitive PString, Primitive PNumber, Primitive PBoolean] \<and>
   mergeTypes [UnionT [Unknown, Primitive PString]] = Primitive PString"
  by code_simp

text \<open>The amended statement of C3 at three lists: distinct types, equal unions, equal arrays.\<close>

theorem mergeTypes_distinct_or_equal_witness:
  "mergeTypes [Primitive PNumber, Primitive PString, Primitive PBoolean]
     = UnionT [Primitive PNumber, Primitive PString, Primitive PBoolean] \<and>
   mergeTypes [UnionT [Primitive PNumber, Primitive PNull], UnionT [Primitive PNumber, Primitive PNull]]
     = UnionT [Primitive PNumber, Primitive PNull] \<and>
   mergeTypes [Array (Primitive PString), Array (Primitive PString), Array (Primitive PString)]
     = Array (Primitive PString)"
proof -
  have 1: "2 \<le> length [Primitive PNumber, Primitive PString, Primitive PBoolean] \<and>
     (\<forall>t\<in>set [Primitive PNumber, Primitive PString, Primitive PBoolean]. \<not> isUnion t \<and> \<not> isUnknown t) \<and>
     structurallyDistinct [Primitive PNumber, Primitive PString, Primitive PBoolean]"
    by (simp add: isUnion_def isUnknown_def)
  have 2: "[UnionT [Primitive PNumber, Primitive PNull], UnionT [Primitive PNumber, Primitive PNull]] \<noteq> [] \<and>
     (\<forall>t\<in>set [UnionT [Primitive PNumber, Primitive PNull], UnionT [Primitive PNumber, Primitive PNull]].
        typesEqual (hd [UnionT [Primitive PNumber, Primitive PNull], UnionT [Primitive PNumber, Primitive PNull]]) t) \<and>
     normalUnion (hd [UnionT [Primitive PNumber, Primitive PNull], UnionT [Primitive PNumber, Primitive PNull]])"
    by (simp add: normalUnion_def isUnion_def isUnknown_def)
  have 3: "[Array (Primitive PString), Array (Primitive PString), Array (Primitive PString)] \<noteq> [] \<and>
     (\<forall>t\<in>set [Array (Primitive PString), Array (Primitive PString), Array (Primitive PString)].
        typesEqual (hd [Array (Primitive PString), Array (Primitive PString), Array (Primitive PString)]) t) \<and>
     normalUnion (hd [Array (Primitive PString), Array (Primitive PString), Array (Primitive PString)])"
    by (simp add: normalUnion_def)
  from 1 2 3 show ?thesis
    using mergeTypes_distinct_or_equal[of "[Primitive PNumber, Primitive PString, Primitive PBoolean]"]
      mergeTypes_distinct_or_equal[of "[UnionT [Primitive PNumber, Primitive PNull], UnionT [Primitive PNumber, Primitive PNull]]"]
      mergeTypes_distinct_or_equal[of "[Array (Primitive PString), Array (Primitive PString), Array (Primitive PString)]"]
    by simp
qed

subsection \<open>Merging objects\<close>

lemma collectKey_eq:
  "collectKey key objs tfk pc nc =
     (tfk @ map ptype (occurrences key objs), pc + length (occurrences key objs),
      nc + length (filter nullable (occurrences key objs)))"
  by (induction objs arbitrary: tfk pc nc) (auto split: option.splits)

lemma length_occurrences: "length (occurrences key objs) = presentCount key objs"
  by (induction objs) (auto simp: presentCount_def getProp_Some_iff split: option.splits)


lemma getProp_Nil [simp]: "getProp [] k = None"
  by (simp add: getProp_def)

lemma keys_Nil [simp]: "keys [] = []"
  by (simp add: keys_def)

lemma getProp_setProp: "getProp (setProp m k v) k' = (if k' = k then Some v else getProp m k')"
  by (induction m k v rule: setProp.induct) (auto simp: getProp_def)

lemma keys_setProp: "set (keys (setProp m k v)) = insert k (set (keys m))"
  by (induction m k v rule: setProp.induct) (auto simp: keys_def)

lemma distinct_keys_setProp: "distinct (keys m) \<Longrightarrow> distinct (keys (setProp m k v))"
proof (induction m k v rule: setProp.induct)
  case (1 k v)
  then show ?case by (simp add: keys_def)
next
  case (2 k' v' m k v)
  then show ?case using keys_setProp[of m k v] by (auto simp: keys_def)
qed

lemma fold_setProp_get:
  "getProp (fold (\<lambda>k m. setProp m k (f k)) ks m0) k = (if k \<in> set ks then Some (f k) else getProp m0 k)"
  by (induction ks arbitrary: m0) (auto simp: getProp_setProp)


lemma fold_setProp_distinct:
  "distinct (keys m0) \<Longrightarrow> distinct (keys (fold (\<lambda>k m. setProp m k (f k)) ks m0))"
  by (induction ks arbitrary: m0) (auto simp: distinct_keys_setProp)

lemma set_fold_addKey: "set (fold addKey ks acc) = set acc \<union> set ks"
  by (induction ks arbitrary: acc) (auto simp: addKey_def)

lemma set_collectAllKeys_aux:
  "set (fold (\<lambda>obj allKeys. fold addKey (keys (properties obj)) allKeys) objs acc)
     = set acc \<union> (\<Union>obj\<in>set objs. set (keys (properties obj)))"
  by (induction objs arbitrary: acc) (auto simp: set_fold_addKey)

lemma set_collectAllKeys:
  "set (collectAllKeys objs) = (\<Union>obj\<in>set objs. set (keys (properties obj)))"
  by (simp add: collectAllKeys_def set_collectAllKeys_aux)

lemma properties_mergeObjectTypes:
  "2 \<le> length objects \<Longrightarrow>
   properties (mergeObjectTypes objects tn)
     = fold (\<lambda>key m. setProp m key (mergeProperty objects key)) (collectAllKeys objects) []"
  by (cases objects; cases "tl objects") (auto simp: mergeObjectTypes_def)

lemma mergeProperty_eq:
  "mergeProperty objects key =
     PropertyInfo
       (fst (stripNull (mergeTypes (map ptype (occurrences key objects)))
               (list_ex nullable (occurrences key objects))))
       (presentCount key objects < length objects)
       (snd (stripNull (mergeTypes (map ptype (occurrences key objects)))
               (list_ex nullable (occurrences key objects))))"
proof -
  have "(0 < length (filter nullable (occurrences key objects))) = list_ex nullable (occurrences key objects)"
    by (auto simp: list_ex_iff filter_empty_conv)
  then show ?thesis
    by (simp add: mergeProperty_def collectKey_eq length_occurrences Let_def split: prod.splits)
qed

lemma getProp_mergeObjectTypes:
  assumes "2 \<le> length objects"
  shows "getProp (properties (mergeObjectTypes objects tn)) key =
           (if \<exists>obj\<in>set objects. key \<in> set (keys (properties obj))
            then Some (mergeProperty objects key) else None)"
  using assms
  by (simp add: properties_mergeObjectTypes fold_setProp_get set_collectAllKeys)


lemma distinct_keys_mergeObjectTypes:
  assumes "2 \<le> length objects"
  shows "distinct (keys (properties (mergeObjectTypes objects tn)))"
  using assms by (simp add: properties_mergeObjectTypes fold_setProp_distinct)








lemma presentCount_le: "presentCount key objects \<le> length objects"
  by (simp add: presentCount_def)

lemma getProp_member:
  "distinct (keys m) \<Longrightarrow> (k, p) \<in> set m \<longleftrightarrow> getProp m k = Some p"
  by (simp add: keys_def getProp_def)



subsection \<open>Union nodes stay flat and distinct under merging\<close>

lemma wfUnionsObject_iff:
  "wfUnionsObject ob \<longleftrightarrow> (\<forall>entry\<in>set (properties ob). wfUnions (ptype (snd entry)))"
proof (cases ob)
  case (ObjectType props tn)
  have "wfUnionsProperty p = wfUnions (ptype p)" for p by (cases p) simp
  then show ?thesis using ObjectType by (simp add: list_all_iff)
qed

lemma wfUnions_flatten:
  "\<forall>t\<in>set ts. wfUnions t \<Longrightarrow> t \<in> set (flattenUnions ts) \<Longrightarrow> wfUnions t"
  by (induction ts arbitrary: t rule: flattenUnions.induct) (auto simp: list_all_iff)

lemma wfUnions_finalTypes:
  assumes "\<forall>t\<in>set ts. wfUnions t"
  shows "wfUnions (UnionT (finalTypes ts))"
proof -
  have "\<forall>t\<in>set (finalTypes ts). wfUnions t"
    using assms wfUnions_flatten finalTypes_subset by blast
  then show ?thesis
    using finalTypes_noUnion[of _ ts] finalTypes_distinct[of ts] by (simp add: list_all_iff)
qed

lemma wfUnions_mergeTypes:
  assumes "\<forall>t\<in>set ts. wfUnions t"
  shows "wfUnions (mergeTypes ts)"
proof -
  have u: "wfUnions (UnionT (finalTypes ts))" using assms by (rule wfUnions_finalTypes)
  consider "mergeTypes ts = Unknown"
    | t where "finalTypes ts = [t]" "mergeTypes ts = t"
    | "mergeTypes ts = UnionT (finalTypes ts)"
    using mergeTypes_cases[of ts] by blast
  then show ?thesis
  proof cases
    case 1
    then show ?thesis by simp
  next
    case 2
    then show ?thesis using u by simp
  next
    case 3
    then show ?thesis using u by simp
  qed
qed

lemma mergeTypes_top_union:
  assumes "mergeTypes ts = UnionT vs"
  shows "list_all (\<lambda>v. \<not> isUnion v) vs \<and> structurallyDistinct vs"
proof -
  from assms have "finalTypes ts = vs" by (simp add: mergeTypes_Union_iff)
  then show ?thesis
    using finalTypes_noUnion[of _ ts] finalTypes_distinct[of ts] by (auto simp: list_all_iff)
qed

lemma wfUnions_stripNull:
  assumes "wfUnions t"
  shows "wfUnions (fst (stripNull t n))"
proof (cases t)
  case (UnionT vs)
  let ?nn = "filter (\<lambda>v. \<not> isNullPrimitive v) vs"
  have w: "wfUnions (UnionT ?nn)"
    using assms UnionT by (simp add: list_all_iff structurallyDistinct_filter)
  have "wfUnions (collapseNonNull ?nn)"
  proof (cases ?nn)
    case Nil
    then show ?thesis by (simp add: collapseNonNull_def)
  next
    case (Cons a list)
    then show ?thesis using w by (cases list) (auto simp: collapseNonNull_def)
  qed
  then show ?thesis using assms UnionT by (simp add: stripNull_def Let_def)
qed (use assms in \<open>simp_all add: stripNull_def\<close>)

lemma occurrences_subset:
  "p \<in> set (occurrences key objs) \<Longrightarrow> \<exists>obj\<in>set objs. (key, p) \<in> set (properties obj)"
  by (induction objs) (auto split: option.splits dest: getProp_SomeD)

lemma wfUnions_mergeProperty:
  assumes "\<forall>obj\<in>set objects. wfUnionsObject obj"
  shows "wfUnions (ptype (mergeProperty objects key))"
proof -
  have "\<forall>t\<in>set (map ptype (occurrences key objects)). wfUnions t"
    using assms occurrences_subset by (fastforce simp: wfUnionsObject_iff)
  then have "wfUnions (mergeTypes (map ptype (occurrences key objects)))"
    by (rule wfUnions_mergeTypes)
  then show ?thesis by (simp add: mergeProperty_eq wfUnions_stripNull)
qed

lemma wfUnions_mergeObjectTypes:
  assumes "\<forall>obj\<in>set objects. wfUnionsObject obj"
  shows "wfUnionsObject (mergeObjectTypes objects tn)"
proof -
  consider "objects = []" | ob where "objects = [ob]" | "2 \<le> length objects"
    by (cases objects; cases "tl objects") auto
  then show ?thesis
  proof cases
    case 1
    then show ?thesis by (simp add: mergeObjectTypes_def)
  next
    case 2
    then show ?thesis using assms by (simp add: mergeObjectTypes_def wfUnionsObject_iff)
  next
    case 3
    have "wfUnions (ptype (snd entry))"
      if m: "entry \<in> set (properties (mergeObjectTypes objects tn))" for entry
    proof -
      obtain key p where entry: "entry = (key, p)" by (cases entry)
      have "getProp (properties (mergeObjectTypes objects tn)) key = Some p"
        using m entry distinct_keys_mergeObjectTypes[OF 3] by (simp add: getProp_member)
      then have "p = mergeProperty objects key"
        using 3 by (simp add: getProp_mergeObjectTypes split: if_splits)
      then show ?thesis using entry assms by (simp add: wfUnions_mergeProperty)
    qed
    then show ?thesis by (simp add: wfUnionsObject_iff)
  qed
qed

subsection \<open>Invariants of the inference traversal\<close>

lemma set_setProp: "set (setProp m k v) \<subseteq> set m \<union> {(k, v)}"
  by (induction m k v rule: setProp.induct) auto

lemma propsWf_setProp: "propsWf props \<Longrightarrow> wfUnions (ptype v) \<Longrightarrow> propsWf (setProp props k v)"
  using set_setProp[of props k v] by (auto simp: propsWf_def)

lemma wfUnions_propertyOf: "wfUnions t \<Longrightarrow> wfUnions (ptype (propertyOf t))"
  by (simp add: propertyOf_def)

lemma accWf_pushElement: "accWf acc \<Longrightarrow> wfUnions t \<Longrightarrow> accWf (pushElement t acc)"
  by (cases acc; cases t) (auto simp: accWf_def pushElement_def)

lemma wfUnions_arrayResult:
  assumes "accWf (fst r)"
  shows "wfUnions (fst (arrayResult p n r))"
proof -
  obtain objs others st where r: "r = ((objs, others), st)" by (cases r) auto
  have o: "\<forall>ob\<in>set objs. wfUnionsObject ob" and t: "\<forall>t\<in>set others. wfUnions t"
    using assms r by (auto simp: accWf_def)
  have m: "wfUnionsObject (mergeObjectTypes objs nm)" for nm
    using o by (rule wfUnions_mergeObjectTypes)
  have 1: "wfUnions (mergeTypes others)" using t by (rule wfUnions_mergeTypes)
  have 2: "wfUnions (mergeTypes (others @ [Object (mergeObjectTypes objs nm)]))" for nm
    using t m by (intro wfUnions_mergeTypes) auto
  show ?thesis
    unfolding r arrayResult_def
    by (simp add: Let_def split_def m 1 2)
qed

lemma wfUnions_objectResult:
  assumes "propsWf (fst r)"
  shows "wfUnionsObject (fst (objectResult settings p r))"
  using assms
  by (cases r) (auto simp: objectResult_def propsWf_def wfUnionsObject_iff split_def)

lemma infer_wfUnions:
  "wfUnions (fst (infer settings v p st))"
  "wfUnions (fst (inferArray settings arr p st))"
  "accWf acc \<Longrightarrow> accWf (fst (inferElements settings arr p i acc st))"
  "wfUnionsObject (fst (inferObject settings obj p st))"
  "propsWf props \<Longrightarrow> propsWf (fst (inferProperties settings obj p props st))"
proof (induction settings v p st and settings arr p st and settings arr p i acc st
        and settings obj p st and settings obj p props st
        rule: infer_inferArray_inferElements_inferObject_inferProperties.induct)
  case (6 settings obj p st)
  then show ?case by (simp add: wrapObject_def split_def)
next
  case (8 settings arr p st)
  show ?case
  proof (cases "length arr = 0")
    case True
    then show ?thesis by simp
  next
    case False
    have "accWf ([], [])" by (simp add: accWf_def)
    with 8 False have "accWf (fst (inferElements settings arr p 0 ([], []) st))" by simp
    then show ?thesis using False by (simp add: wfUnions_arrayResult)
  qed
next
  case (10 settings val rest p i acc st)
  obtain x y where xy: "infer settings val (p @ [''['' @ showNat i @ '']'']) st = (x, y)"
    by (cases "infer settings val (p @ [''['' @ showNat i @ '']'']) st") auto
  have "wfUnions x" using 10(1) xy by simp
  then have "accWf (pushElement x acc)" using 10(3) by (simp add: accWf_pushElement)
  then show ?case using 10(2)[OF xy[symmetric]] xy by simp
next
  case (11 settings obj p st)
  have "propsWf []" by (simp add: propsWf_def)
  with 11 show ?case by (simp add: wfUnions_objectResult)
next
  case (13 settings key val rest p props st)
  obtain x y where xy: "infer settings val (p @ [key]) (countField st) = (x, y)"
    by (cases "infer settings val (p @ [key]) (countField st)") auto
  have "wfUnions x" using 13(1) xy by simp
  then have "propsWf (setProp props key (propertyOf x))"
    using 13(3) by (simp add: propsWf_setProp wfUnions_propertyOf)
  then show ?case using 13(2)[OF xy[symmetric]] xy by simp
qed simp_all

lemma wfUnions_inferType: "wfUnions (rtype (inferType v settings))"
proof -
  have 1: "wfUnions (fst (infer settings v [] st))" for st by (rule infer_wfUnions(1))
  show ?thesis
  proof (cases "\<not> typeofObject v \<or> v = JNull")
    case True
    then show ?thesis using 1[of "pushDiagnostic rootError initialState"]
      by (simp add: inferType_def split_def)
  next
    case False
    obtain t st where r: "infer settings v [] initialState = (t, st)"
      by (cases "infer settings v [] initialState") auto
    have w: "wfUnions t" using 1[of initialState] r by simp
    have "wfUnions (case t of Object ob \<Rightarrow> Object (ObjectType (properties ob) (rootTypeName settings)) | _ \<Rightarrow> t)"
      using w by (cases t) (auto simp: wfUnionsObject_iff)
    then show ?thesis using False r by (simp add: inferType_def)
  qed
qed







subsection \<open>Null elements of arrays\<close>
















lemma properties_inferObject:
  "properties (fst (inferObject settings obj p st)) = fst (inferProperties settings obj p [] st)"
  by (simp add: objectResult_def split_def)

text \<open>
  The objects inference builds mark no property optional, so the single-object case of
  \<open>mergeObjectTypes\<close> returns no optional property when inference calls it.
\<close>

lemma optional_propertyOf: "\<not> optional (propertyOf t)"
  by (simp add: propertyOf_def)

lemma inferProperties_not_optional:
  "\<forall>e\<in>set props. \<not> optional (snd e) \<Longrightarrow>
   \<forall>e\<in>set (fst (inferProperties settings obj p props st)). \<not> optional (snd e)"
proof (induction obj arbitrary: props st)
  case Nil
  then show ?case by simp
next
  case (Cons a obj)
  obtain k v where a: "a = (k, v)" by (cases a)
  let ?r = "infer settings v (p @ [k]) (countField st)"
  have "\<forall>e\<in>set (setProp props k (propertyOf (fst ?r))). \<not> optional (snd e)"
    using Cons.prems set_setProp[of props k "propertyOf (fst ?r)"] optional_propertyOf by auto
  then show ?case using Cons.IH a by (simp add: split_def)
qed

lemma inferObject_not_optional:
  "\<forall>e\<in>set (properties (fst (inferObject settings obj p st))). \<not> optional (snd e)"
  unfolding properties_inferObject by (rule inferProperties_not_optional) simp


subsection \<open>Names, root diagnostics and the union invariant\<close>

lemma generate_eq:
  "generate segs used =
     (case used (candidateName segs) of
        None \<Rightarrow> (candidateName segs, used(candidateName segs \<mapsto> 1))
      | Some n \<Rightarrow> (if n = 0 then candidateName segs else candidateName segs @ showNat (n + 1),
                    used(candidateName segs \<mapsto> n + 1)))"
  by (simp add: generate_def candidateName_def Let_def split: option.splits)

lemma showNat_2_3: "showNat (Suc (Suc 0)) = ''2''" "showNat (Suc (Suc (Suc 0))) = ''3''"
  by code_simp+

lemma generate_numbering:
  assumes "used (candidateName segs) = None"
  shows "fst (generate segs used) = candidateName segs"
    and "fst (generate segs (snd (generate segs used))) = candidateName segs @ ''2''"
    and "fst (generate segs (snd (generate segs (snd (generate segs used))))) = candidateName segs @ ''3''"
  using assms by (simp_all add: generate_eq showNat_2_3)

text \<open>
  C1. The allocator gives the first use of a base name unsuffixed, the second the suffix 2
  and the third the suffix 3 (\<open>generate_numbering\<close>), but it does not record the suffixed
  names: after \<open>Item\<close> and \<open>Item2\<close> for the segment \<open>item\<close>, the segment \<open>item2\<close> yields
  \<open>Item2\<close> again. So one inference run can name two objects alike; the root name written
  by \<open>inferType\<close> can also repeat the name of a child.
\<close>

theorem generate_repeats_a_name:
  "fst (generate [''item''] Map.empty) = ''Item'' \<and>
   fst (generate [''item''] (snd (generate [''item''] Map.empty))) = ''Item2'' \<and>
   fst (generate [''item2''] (snd (generate [''item''] (snd (generate [''item''] Map.empty))))) = ''Item2''"
  by code_simp

text \<open>
  The same through inference: the objects under the keys \<open>X\<close> and \<open>x2\<close> are both
  named \<open>X2\<close>, and the object under the key \<open>root\<close> has the name of the root.
\<close>

lemma inferType_repeats_a_name:
  "rtype (inferType (JObject [(''x'', JObject []), (''X'', JObject []), (''x2'', JObject [])])
            DEFAULT_SETTINGS)
     = Object (ObjectType
         [(''x'', PropertyInfo (Object (ObjectType [] ''X'')) False False),
          (''X'', PropertyInfo (Object (ObjectType [] ''X2'')) False False),
          (''x2'', PropertyInfo (Object (ObjectType [] ''X2'')) False False)] ''Root'') \<and>
   rtype (inferType (JObject [(''root'', JObject [])]) DEFAULT_SETTINGS)
     = Object (ObjectType [(''root'', PropertyInfo (Object (ObjectType [] ''Root'')) False False)] ''Root'')"
  by code_simp




text \<open>
  C4, as amended. In every IR tree returned by \<open>inferType\<close> every union node has pairwise
  structurally distinct variants, none of them a union. A union returned by \<open>mergeTypes\<close>
  has this property at its top level whatever the inputs are, and \<open>mergeTypes\<close> and
  \<open>mergeObjectTypes\<close> keep it for all union nodes if all union nodes of their inputs
  have it.
\<close>

theorem unions_distinct_and_flat:
  "wfUnions (rtype (inferType v settings)) \<and>
   (\<forall>vs. mergeTypes ts = UnionT vs \<longrightarrow> list_all (\<lambda>v. \<not> isUnion v) vs \<and> structurallyDistinct vs) \<and>
   ((\<forall>t\<in>set ts. wfUnions t) \<longrightarrow> wfUnions (mergeTypes ts)) \<and>
   ((\<forall>obj\<in>set objects. wfUnionsObject obj) \<longrightarrow> wfUnionsObject (mergeObjectTypes objects tn))"
  using wfUnions_inferType mergeTypes_top_union wfUnions_mergeTypes wfUnions_mergeObjectTypes
  by blast

text \<open>
  The claim as stated fails: the merge functions do not look inside array element types
  and property types, so a union node nested in an input comes out as it went in.
\<close>

theorem nested_unions_counterexample:
  "mergeTypes [Array (UnionT [Primitive PString, Primitive PString])]
     = Array (UnionT [Primitive PString, Primitive PString]) \<and>
   \<not> wfUnions (mergeTypes [Array (UnionT [Primitive PString, Primitive PString])]) \<and>
   mergeTypes [Array (UnionT [UnionT [Primitive PString, Primitive PNumber], Primitive PNull]),
               Primitive PNumber]
     = UnionT [Array (UnionT [UnionT [Primitive PString, Primitive PNumber], Primitive PNull]),
               Primitive PNumber] \<and>
   \<not> wfUnions (mergeTypes [Array (UnionT [UnionT [Primitive PString, Primitive PNumber], Primitive PNull]),
                          Primitive PNumber]) \<and>
   \<not> wfUnionsObject (mergeObjectTypes
        [ObjectType [(''a'', PropertyInfo (UnionT [Primitive PString, Primitive PString]) False False)] ''X'']
        ''Y'') \<and>
   \<not> wfUnionsObject (mergeObjectTypes
        [ObjectType [(''a'', PropertyInfo (Array (UnionT [Primitive PString, Primitive PString])) False False)] ''X'',
         ObjectType [(''a'', PropertyInfo (Array (UnionT [Primitive PString, Primitive PString])) False False)] ''X'']
        ''Y'')"
  by code_simp

subsection \<open>Unions are not empty, and the example emitter returns a text\<close>

lemma nonEmptyUnionsObject_iff:
  "nonEmptyUnionsObject ob \<longleftrightarrow> (\<forall>entry\<in>set (properties ob). nonEmptyUnions (ptype (snd entry)))"
proof (cases ob)
  case (ObjectType props tn)
  have "nonEmptyUnionsProperty p = nonEmptyUnions (ptype p)" for p by (cases p) simp
  then show ?thesis using ObjectType by (simp add: list_all_iff)
qed

lemma nonEmptyUnions_flatten:
  "\<forall>t\<in>set ts. nonEmptyUnions t \<Longrightarrow> t \<in> set (flattenUnions ts) \<Longrightarrow> nonEmptyUnions t"
  by (induction ts arbitrary: t rule: flattenUnions.induct) (auto simp: list_all_iff)

lemma nonEmptyUnions_flatten_nonempty:
  "ts \<noteq> [] \<Longrightarrow> \<forall>t\<in>set ts. nonEmptyUnions t \<Longrightarrow> flattenUnions ts \<noteq> []"
  by (induction ts rule: flattenUnions.induct) (auto simp: list_all_iff)

lemma finalTypes_nonempty: "flattenUnions ts \<noteq> [] \<Longrightarrow> finalTypes ts \<noteq> []"
  by (auto simp: finalTypes_def Let_def deduplicateTypes_Nil_iff)

lemma nonEmptyUnions_mergeTypes:
  assumes "\<forall>t\<in>set ts. nonEmptyUnions t"
  shows "nonEmptyUnions (mergeTypes ts)"
proof -
  have a: "\<forall>t\<in>set (finalTypes ts). nonEmptyUnions t"
    using assms nonEmptyUnions_flatten finalTypes_subset by blast
  consider "mergeTypes ts = Unknown"
    | t where "finalTypes ts = [t]" "mergeTypes ts = t"
    | "mergeTypes ts = UnionT (finalTypes ts)" "ts \<noteq> []"
    using mergeTypes_cases[of ts] by blast
  then show ?thesis
  proof cases
    case 1
    then show ?thesis by simp
  next
    case 2
    then show ?thesis using a by simp
  next
    case 3
    have "finalTypes ts \<noteq> []"
      using 3(2) assms by (intro finalTypes_nonempty nonEmptyUnions_flatten_nonempty)
    then show ?thesis using 3(1) a by (simp add: list_all_iff)
  qed
qed

lemma nonEmptyUnions_stripNull:
  assumes "nonEmptyUnions t"
  shows "nonEmptyUnions (fst (stripNull t n))"
proof (cases t)
  case (UnionT vs)
  let ?nn = "filter (\<lambda>v. \<not> isNullPrimitive v) vs"
  have w: "\<forall>v\<in>set ?nn. nonEmptyUnions v" using assms UnionT by (simp add: list_all_iff)
  have "nonEmptyUnions (collapseNonNull ?nn)"
  proof (cases ?nn)
    case Nil
    then show ?thesis by (simp add: collapseNonNull_def)
  next
    case (Cons a list)
    then show ?thesis using w by (cases list) (auto simp: collapseNonNull_def list_all_iff)
  qed
  then show ?thesis using assms UnionT by (simp add: stripNull_def Let_def)
qed (use assms in \<open>simp_all add: stripNull_def\<close>)

lemma nonEmptyUnions_mergeProperty:
  assumes "\<forall>obj\<in>set objects. nonEmptyUnionsObject obj"
  shows "nonEmptyUnions (ptype (mergeProperty objects key))"
proof -
  have "\<forall>t\<in>set (map ptype (occurrences key objects)). nonEmptyUnions t"
    using assms occurrences_subset by (fastforce simp: nonEmptyUnionsObject_iff)
  then have "nonEmptyUnions (mergeTypes (map ptype (occurrences key objects)))"
    by (rule nonEmptyUnions_mergeTypes)
  then show ?thesis by (simp add: mergeProperty_eq nonEmptyUnions_stripNull)
qed

lemma nonEmptyUnions_mergeObjectTypes:
  assumes "\<forall>obj\<in>set objects. nonEmptyUnionsObject obj"
  shows "nonEmptyUnionsObject (mergeObjectTypes objects tn)"
proof -
  consider "objects = []" | ob where "objects = [ob]" | "2 \<le> length objects"
    by (cases objects; cases "tl objects") auto
  then show ?thesis
  proof cases
    case 1
    then show ?thesis by (simp add: mergeObjectTypes_def)
  next
    case 2
    then show ?thesis using assms by (simp add: mergeObjectTypes_def nonEmptyUnionsObject_iff)
  next
    case 3
    have "nonEmptyUnions (ptype (snd entry))"
      if m: "entry \<in> set (properties (mergeObjectTypes objects tn))" for entry
    proof -
      obtain key p where entry: "entry = (key, p)" by (cases entry)
      have "getProp (properties (mergeObjectTypes objects tn)) key = Some p"
        using m entry distinct_keys_mergeObjectTypes[OF 3] by (simp add: getProp_member)
      then have "p = mergeProperty objects key"
        using 3 by (simp add: getProp_mergeObjectTypes split: if_splits)
      then show ?thesis using entry assms by (simp add: nonEmptyUnions_mergeProperty)
    qed
    then show ?thesis by (simp add: nonEmptyUnionsObject_iff)
  qed
qed

lemma propsNe_setProp: "propsNe props \<Longrightarrow> nonEmptyUnions (ptype v) \<Longrightarrow> propsNe (setProp props k v)"
  using set_setProp[of props k v] by (auto simp: propsNe_def list_all_iff)

lemma nonEmptyUnions_propertyOf: "nonEmptyUnions t \<Longrightarrow> nonEmptyUnions (ptype (propertyOf t))"
  by (simp add: propertyOf_def)

lemma accNe_pushElement: "accNe acc \<Longrightarrow> nonEmptyUnions t \<Longrightarrow> accNe (pushElement t acc)"
  by (cases acc; cases t) (auto simp: accNe_def pushElement_def)

lemma nonEmptyUnions_arrayResult:
  assumes "accNe (fst r)"
  shows "nonEmptyUnions (fst (arrayResult p n r))"
proof -
  obtain objs others st where r: "r = ((objs, others), st)" by (cases r) auto
  have o: "\<forall>ob\<in>set objs. nonEmptyUnionsObject ob" and t: "\<forall>t\<in>set others. nonEmptyUnions t"
    using assms r by (auto simp: accNe_def list_all_iff)
  have m: "nonEmptyUnionsObject (mergeObjectTypes objs nm)" for nm
    using o by (rule nonEmptyUnions_mergeObjectTypes)
  have 1: "nonEmptyUnions (mergeTypes others)" using t by (rule nonEmptyUnions_mergeTypes)
  have 2: "nonEmptyUnions (mergeTypes (others @ [Object (mergeObjectTypes objs nm)]))" for nm
    using t m by (intro nonEmptyUnions_mergeTypes) auto
  show ?thesis
    unfolding r arrayResult_def
    by (simp add: Let_def split_def m 1 2)
qed

lemma nonEmptyUnions_objectResult:
  assumes "propsNe (fst r)"
  shows "nonEmptyUnionsObject (fst (objectResult settings p r))"
  using assms
  by (cases r) (auto simp: objectResult_def propsNe_def nonEmptyUnionsObject_iff split_def list_all_iff)

lemma infer_neUnions:
  "nonEmptyUnions (fst (infer settings v p st))"
  "nonEmptyUnions (fst (inferArray settings arr p st))"
  "accNe acc \<Longrightarrow> accNe (fst (inferElements settings arr p i acc st))"
  "nonEmptyUnionsObject (fst (inferObject settings obj p st))"
  "propsNe props \<Longrightarrow> propsNe (fst (inferProperties settings obj p props st))"
proof (induction settings v p st and settings arr p st and settings arr p i acc st
        and settings obj p st and settings obj p props st
        rule: infer_inferArray_inferElements_inferObject_inferProperties.induct)
  case (6 settings obj p st)
  then show ?case by (simp add: wrapObject_def split_def)
next
  case (8 settings arr p st)
  show ?case
  proof (cases "length arr = 0")
    case True
    then show ?thesis by simp
  next
    case False
    have "accNe ([], [])" by (simp add: accNe_def)
    with 8 False have "accNe (fst (inferElements settings arr p 0 ([], []) st))" by simp
    then show ?thesis using False by (simp add: nonEmptyUnions_arrayResult)
  qed
next
  case (10 settings val rest p i acc st)
  obtain x y where xy: "infer settings val (p @ [''['' @ showNat i @ '']'']) st = (x, y)"
    by (cases "infer settings val (p @ [''['' @ showNat i @ '']'']) st") auto
  have "nonEmptyUnions x" using 10(1) xy by simp
  then have "accNe (pushElement x acc)" using 10(3) by (simp add: accNe_pushElement)
  then show ?case using 10(2)[OF xy[symmetric]] xy by simp
next
  case (11 settings obj p st)
  have "propsNe []" by (simp add: propsNe_def)
  with 11 show ?case by (simp add: nonEmptyUnions_objectResult)
next
  case (13 settings key val rest p props st)
  obtain x y where xy: "infer settings val (p @ [key]) (countField st) = (x, y)"
    by (cases "infer settings val (p @ [key]) (countField st)") auto
  have "nonEmptyUnions x" using 13(1) xy by simp
  then have "propsNe (setProp props key (propertyOf x))"
    using 13(3) by (simp add: propsNe_setProp nonEmptyUnions_propertyOf)
  then show ?case using 13(2)[OF xy[symmetric]] xy by simp
qed simp_all

lemma nonEmptyUnions_inferType: "nonEmptyUnions (rtype (inferType v settings))"
proof -
  have 1: "nonEmptyUnions (fst (infer settings v [] st))" for st by (rule infer_neUnions(1))
  show ?thesis
  proof (cases "\<not> typeofObject v \<or> v = JNull")
    case True
    then show ?thesis using 1[of "pushDiagnostic rootError initialState"]
      by (simp add: inferType_def split_def)
  next
    case False
    obtain t st where r: "infer settings v [] initialState = (t, st)"
      by (cases "infer settings v [] initialState") auto
    have w: "nonEmptyUnions t" using 1[of initialState] r by simp
    have "nonEmptyUnions (case t of Object ob \<Rightarrow> Object (ObjectType (properties ob) (rootTypeName settings)) | _ \<Rightarrow> t)"
      using w by (cases t) (auto simp: nonEmptyUnionsObject_iff)
    then show ?thesis using False r by (simp add: inferType_def)
  qed
qed

lemma collectResults_all_Inr:
  "\<forall>r\<in>set rs. \<exists>x. r = Inr x \<Longrightarrow> \<exists>xs. collectResults rs = Inr xs"
proof (induction rs rule: collectResults.induct)
  case 1
  then show ?case by simp
next
  case (2 e rs)
  then show ?case by simp
next
  case (3 x rs)
  then obtain xs where "collectResults rs = Inr xs" by auto
  then show ?case by simp
qed

lemma generateValue_succeeds:
  "nonEmptyUnions t \<Longrightarrow> \<exists>out. generateValue t settings indent = Inr out"
proof (induction t settings indent rule: generateValue.induct)
  case (4 elementType settings indent)
  then show ?case by auto
next
  case (5 variants settings indent)
  show ?case
  proof (cases "find (\<lambda>v. \<not> isNullPrimitive v) variants")
    case None
    obtain v vs where vs: "variants = v # vs" using 5(3) by (cases variants) auto
    have "nonEmptyUnions v" using 5(3) vs by simp
    then show ?thesis using 5(1)[OF None vs] None vs by simp
  next
    case (Some nonNull)
    then have "nonNull \<in> set variants" by (auto simp: find_Some_iff)
    then have "nonEmptyUnions nonNull" using 5(3) by (simp add: list_all_iff)
    then show ?thesis using 5(2)[OF Some] Some by simp
  qed
next
  case (6 ob settings indent)
  let ?f = "\<lambda>(key, pinfo).
                     case (if nullable pinfo then Inr ''null''
                           else generateValue (ptype pinfo) settings (indent + 1)) of
                       Inl e \<Rightarrow> Inl e
                     | Inr val \<Rightarrow> Inr (exampleField settings indent key val)"
  have "\<exists>x. r = Inr x" if "r \<in> set (map ?f (properties ob))" for r
  proof -
    from that obtain key pinfo where e: "(key, pinfo) \<in> set (properties ob)" "r = ?f (key, pinfo)"
      by auto
    show ?thesis
    proof (cases "nullable pinfo")
      case True
      then show ?thesis using e(2) by simp
    next
      case False
      have "nonEmptyUnions (ptype pinfo)" using 6(2) e(1) by (fastforce simp: nonEmptyUnionsObject_iff)
      moreover have "properties ob \<noteq> []" using e(1) by auto
      ultimately obtain out where "generateValue (ptype pinfo) settings (indent + 1) = Inr out"
        using 6(1)[OF refl _ e(1) refl False] by auto
      then show ?thesis using e(2) False by simp
    qed
  qed
  then obtain xs where "collectResults (map ?f (properties ob)) = Inr xs"
    using collectResults_all_Inr by blast
  then show ?case by (simp add: Let_def)
qed simp_all

subsection \<open>Date strings\<close>

text \<open>
  C8. A string matching \<open>ISO_DATE_REGEX\<close> is inferred as \<open>DateString\<close> with one more
  diagnostic of level \<open>Info\<close> at its path when \<open>detectDates\<close> is set, and as
  \<open>Primitive(string)\<close> with the state unchanged when it is not; the schema emitter with
  \<open>detectDates\<close> set renders \<open>DateString\<close> as \<open>z.string().datetime()\<close>.
\<close>

theorem date_detection:
  \<open>matches ISO_DATE_REGEX val \<Longrightarrow>
   (detectDates settings \<longrightarrow>
      infer settings (JString val) p st =
        (DateString,
         st\<lparr>st_diagnostics := st_diagnostics st @
              [\<lparr>level = Info,
                message = ''Detected ISO date string at "'' @ join ''.'' p @ ''"'',
                path = join ''.'' p\<rparr>]\<rparr>)) \<and>
   (g_detectDates gsettings \<longrightarrow> typeToZod DateString gsettings = ''z.string().datetime()'') \<and>
   (\<not> detectDates settings \<longrightarrow> infer settings (JString val) p st = (Primitive PString, st))\<close>
  by (simp add: pushDiagnostic_def dateInfo_def)

text \<open>C8 at the timestamp of the test suite.\<close>

theorem date_detection_witness:
  \<open>matches ISO_DATE_REGEX ''2025-01-15T09:30:00.000Z'' \<and>
   infer (DEFAULT_SETTINGS\<lparr>detectDates := True\<rparr>) (JString ''2025-01-15T09:30:00.000Z'')
       [''createdAt''] initialState =
     (DateString,
      initialState\<lparr>st_diagnostics :=
         [\<lparr>level = Info, message = ''Detected ISO date string at "createdAt"'',
           path = ''createdAt''\<rparr>]\<rparr>) \<and>
   infer DEFAULT_SETTINGS (JString ''2025-01-15T09:30:00.000Z'') [''createdAt''] initialState =
     (Primitive PString, initialState)\<close>
proof -
  have m: "matches ISO_DATE_REGEX ''2025-01-15T09:30:00.000Z''" by code_simp
  have d: "detectDates (DEFAULT_SETTINGS\<lparr>detectDates := True\<rparr>)" "\<not> detectDates DEFAULT_SETTINGS"
    by (simp_all add: DEFAULT_SETTINGS_def)
  from date_detection[OF m, of "DEFAULT_SETTINGS\<lparr>detectDates := True\<rparr>" "[''createdAt'']" initialState]
    date_detection[OF m, of DEFAULT_SETTINGS "[''createdAt'']" initialState] m d
  show ?thesis by (simp add: initialState_def)
qed

text \<open>
  Strings the pattern accepts and rejects: the time of day is optional, seconds and
  fraction are optional within it, and a zone is read only after a time of day.
\<close>

lemma iso_date_examples:
  "matches ISO_DATE_REGEX ''2025-01-15''"
  "matches ISO_DATE_REGEX ''2025-01-15T09:30''"
  "matches ISO_DATE_REGEX ''2025-01-15T09:30:00''"
  "matches ISO_DATE_REGEX ''2025-01-15T09:30:00.000Z''"
  "matches ISO_DATE_REGEX ''2025-01-15T09:30+0100''"
  "matches ISO_DATE_REGEX ''2025-01-15T09:30:00-01:00''"
  "\<not> matches ISO_DATE_REGEX ''2025-01-15Z''"
  "\<not> matches ISO_DATE_REGEX ''2025-01-15T09:30:00.''"
  "\<not> matches ISO_DATE_REGEX ''2025-1-15''"
  "\<not> matches ISO_DATE_REGEX ''2025-01-15T09:30:00.000Z ''"
  by code_simp+

subsection \<open>Property keys in the emitted text\<close>

lemma isPrefixOf_iff: "isPrefixOf x s \<longleftrightarrow> (\<exists>after. s = x @ after)"
  by (induction x s rule: isPrefixOf.induct) auto

lemma containsText_iff: "containsText s x \<longleftrightarrow> (\<exists>before after. s = before @ x @ after)"
proof (induction s)
  case Nil
  then show ?case by simp
next
  case (Cons c s)
  show ?case
  proof
    assume "containsText (c # s) x"
    then consider "isPrefixOf x (c # s)" | "containsText s x" by auto
    then show "\<exists>before after. c # s = before @ x @ after"
    proof cases
      case 1
      then obtain a where "c # s = [] @ x @ a" by (auto simp: isPrefixOf_iff)
      then show ?thesis by blast
    next
      case 2
      then obtain b a where "s = b @ x @ a" using Cons by blast
      then have "c # s = (c # b) @ x @ a" by simp
      then show ?thesis by blast
    qed
  next
    assume "\<exists>before after. c # s = before @ x @ after"
    then obtain b a where ba: "c # s = b @ x @ a" by blast
    show "containsText (c # s) x"
    proof (cases b)
      case Nil
      then have "isPrefixOf x (c # s)" using ba by (auto simp: isPrefixOf_iff)
      then show ?thesis by simp
    next
      case (Cons c' b')
      then have "s = b' @ x @ a" using ba by simp
      then have "containsText s x" using Cons.IH by blast
      then show ?thesis by simp
    qed
  qed
qed

lemma containsText_context: "containsText s x \<Longrightarrow> containsText (l @ s @ r) x"
proof -
  assume "containsText s x"
  then obtain b a where "s = b @ x @ a" by (auto simp: containsText_iff)
  then have "l @ s @ r = (l @ b) @ x @ (a @ r)" by simp
  then show ?thesis unfolding containsText_iff by blast
qed

lemma containsText_refl: "containsText s s"
  unfolding containsText_iff by (metis append_Nil append_Nil2)

lemma containsText_join: "x \<in> set xs \<Longrightarrow> containsText (join sep xs) x"
proof (induction sep xs rule: join.induct)
  case (1 sep)
  then show ?case by simp
next
  case (2 sep x')
  then show ?case by (simp add: containsText_refl)
next
  case (3 sep y v va)
  show ?case
  proof (cases "x = y")
    case True
    have "containsText ([] @ x @ (sep @ join sep (v # va))) x"
      by (rule containsText_context[OF containsText_refl])
    then show ?thesis using True by simp
  next
    case False
    then have "containsText (join sep (v # va)) x" using 3 by auto
    then have "containsText ((y @ sep) @ join sep (v # va) @ []) x" by (rule containsText_context)
    then show ?thesis by simp
  qed
qed

lemma containsText_appendI1: "containsText a x \<Longrightarrow> containsText (a @ b) x"
  using containsText_context[of a x "[]" b] by simp

lemma containsText_appendI2: "containsText b x \<Longrightarrow> containsText (a @ b) x"
  using containsText_context[of b x a "[]"] by simp

lemma containsText_prefix: "containsText s (x @ y) \<Longrightarrow> containsText s x"
proof -
  assume "containsText s (x @ y)"
  then obtain b a where "s = b @ (x @ y) @ a" by (auto simp: containsText_iff)
  then have "s = b @ x @ (y @ a)" by simp
  then show ?thesis unfolding containsText_iff by blast
qed

lemma declaration_contains_field:
  assumes "entry \<in> set (properties obj)"
  shows "containsText (generateObjectDeclaration obj settings) (declarationField settings entry)"
proof -
  have j: "containsText (join newline (map (declarationField settings) (properties obj)))
             (declarationField settings entry)"
    using assms by (intro containsText_join) simp
  show ?thesis
    unfolding generateObjectDeclaration_def Let_def
    by (cases "outputStyle settings = Interface"; simp only: if_True if_False simp_thms)
       (blast intro: containsText_appendI1 containsText_appendI2 j)+
qed

lemma declaration_contains_annotation:
  assumes "x \<in> set (concat (map (snakeConversion settings) (properties obj)))"
  shows "containsText (generateObjectDeclaration obj settings) x"
proof -
  have j: "containsText (join newline (concat (map (snakeConversion settings) (properties obj)))) x"
    using assms by (rule containsText_join)
  have l: "length (concat (map (snakeConversion settings) (properties obj))) > 0"
    using assms by (cases "concat (map (snakeConversion settings) (properties obj))") auto
  show ?thesis
    unfolding generateObjectDeclaration_def Let_def
    by (cases "outputStyle settings = Interface"; simp only: if_True if_False simp_thms l)
       (blast intro: containsText_appendI1 containsText_appendI2 j)+
qed

lemma schema_contains_field:
  assumes "entry \<in> set (properties obj)"
  shows "containsText (generateObjectSchema obj settings) (schemaField settings entry)"
proof -
  have j: "containsText (join newline (map (schemaField settings) (properties obj)))
             (schemaField settings entry)"
    using assms by (intro containsText_join) simp
  show ?thesis
    unfolding generateObjectSchema_def Let_def
    by (blast intro: containsText_appendI1 containsText_appendI2 j)
qed

lemma collectResults_Inr: "collectResults rs = Inr xs \<Longrightarrow> rs = map Inr xs"
proof (induction rs arbitrary: xs rule: collectResults.induct)
  case 1
  then show ?case by simp
next
  case (2 e rs)
  then show ?case by simp
next
  case (3 x rs)
  then show ?case by (auto split: sum.splits)
qed

lemma example_contains_field:
  assumes "generateValue (Object obj) settings indent = Inr out"
    and "(key, pinfo) \<in> set (properties obj)"
  shows "\<exists>val. containsText out (exampleField settings indent key val)"
proof -
  let ?f = "\<lambda>(key, pinfo).
                     case (if nullable pinfo then Inr ''null''
                           else generateValue (ptype pinfo) settings (indent + 1)) of
                       Inl e \<Rightarrow> Inl e
                     | Inr val \<Rightarrow> Inr (exampleField settings indent key val)"
  have ne: "length (properties obj) \<noteq> 0" using assms(2) by auto
  obtain fieldLines where c: "collectResults (map ?f (properties obj)) = Inr fieldLines"
    and out: "out = ''{'' @ newline @ join newline fieldLines @ newline @ repeatSpaces indent @ ''}''"
    using assms(1) ne by (auto simp: Let_def split: sum.splits)
  have "map ?f (properties obj) = map Inr fieldLines" using c by (rule collectResults_Inr)
  moreover have "?f (key, pinfo) \<in> set (map ?f (properties obj))" using assms(2) by force
  ultimately obtain line where line: "?f (key, pinfo) = Inr line" "line \<in> set fieldLines" by auto
  then obtain val where "line = exampleField settings indent key val"
    by (auto split: sum.splits if_splits)
  moreover have "containsText out line"
    unfolding out using containsText_join[OF line(2), of newline]
    by (blast intro: containsText_appendI1 containsText_appendI2)
  ultimately show ?thesis by blast
qed

text \<open>
  Every property whose key is snake_case for the source (\<open>isSnakeCase\<close>) is rendered through
  \<open>snakeToCamel\<close> by the declaration and example emitters when \<open>snakeToCamel\<close> is set: the
  declaration contains the field under \<open>snakeToCamel key\<close> and the comment line mapping it
  back to the original key; an example value rendered for the object contains the field
  under \<open>snakeToCamel key\<close>, and one is rendered whenever no union in the object is empty, as
  in every inferred tree (\<open>nonEmptyUnions_inferType\<close>); the schema contains the field under
  the original key.
\<close>

lemma keys_rendered_through_snakeToCamel:
  assumes "snakeToCamelOn settings" and "(key, pinfo) \<in> set (properties obj)" and "isSnakeCase key"
  shows \<open>containsText (generateObjectDeclaration obj settings)
           (''  '' @ snakeToCamel key @ (if optional pinfo then ''?'' else []) @ '': '') \<and>
         containsText (generateObjectDeclaration obj settings)
           (''  // "'' @ snakeToCamel key @ ''" maps to JSON key "'' @ key @ ''"'') \<and>
         (\<forall>out. generateValue (Object obj) settings indent = Inr out \<longrightarrow>
            containsText out (repeatSpaces (indent + 1) @ snakeToCamel key @ '': '')) \<and>
         (nonEmptyUnionsObject obj \<longrightarrow>
            (\<exists>out. generateValue (Object obj) settings indent = Inr out)) \<and>
         containsText (generateObjectSchema obj settings) (''  '' @ key @ '': '')\<close>
proof (intro conjI allI impI)
  have "declarationField settings (key, pinfo) =
      (''  '' @ snakeToCamel key @ (if optional pinfo then ''?'' else []) @ '': '')
        @ (typeToTS (ptype pinfo) settings @ (if nullable pinfo then '' | null'' else []) @ '';'')"
    using assms(1,3) by (simp add: declarationField_def tsKeyOf_def Let_def)
  then show "containsText (generateObjectDeclaration obj settings)
           (''  '' @ snakeToCamel key @ (if optional pinfo then ''?'' else []) @ '': '')"
    using declaration_contains_field[OF assms(2), of settings] containsText_prefix by metis
next
  have \<open>(''  // "'' @ snakeToCamel key @ ''" maps to JSON key "'' @ key @ ''"'')
          \<in> set (snakeConversion settings (key, pinfo))\<close>
    using assms(1,3) by (simp add: snakeConversion_def)
  then have \<open>(''  // "'' @ snakeToCamel key @ ''" maps to JSON key "'' @ key @ ''"'')
          \<in> set (concat (map (snakeConversion settings) (properties obj)))\<close>
    using assms(2) by force
  then show \<open>containsText (generateObjectDeclaration obj settings)
           (''  // "'' @ snakeToCamel key @ ''" maps to JSON key "'' @ key @ ''"'')\<close>
    by (rule declaration_contains_annotation)
next
  fix out assume "generateValue (Object obj) settings indent = Inr out"
  from example_contains_field[OF this assms(2)] obtain val where
    v: "containsText out (exampleField settings indent key val)" by blast
  have "exampleField settings indent key val =
      (repeatSpaces (indent + 1) @ snakeToCamel key @ '': '') @ (val @ '','')"
    using assms(1,3) by (simp add: exampleField_def tsKeyOf_def)
  then show "containsText out (repeatSpaces (indent + 1) @ snakeToCamel key @ '': '')"
    using v containsText_prefix by metis
next
  assume "nonEmptyUnionsObject obj"
  then have "nonEmptyUnions (Object obj)" by simp
  then show "\<exists>out. generateValue (Object obj) settings indent = Inr out"
    by (rule generateValue_succeeds)
next
  have "\<exists>rest. schemaField settings (key, pinfo) = (''  '' @ key @ '': '') @ rest"
    by (simp add: schemaField_def Let_def)
  then show "containsText (generateObjectSchema obj settings) (''  '' @ key @ '': '')"
    using schema_contains_field[OF assms(2), of settings] containsText_prefix by metis
qed

text \<open>The emitters at an object with the key \<open>user_name\<close>.\<close>

lemma keys_rendered_example:
  \<open>snakeToCamelOn SNAKE_SETTINGS \<and>
   (''user_name'', PropertyInfo (Primitive PString) False False) \<in> set (properties snakeObject) \<and>
   isSnakeCase ''user_name'' \<and>
   nonEmptyUnionsObject snakeObject \<and>
   containsText (generateObjectDeclaration snakeObject SNAKE_SETTINGS) ''  userName: '' \<and>
   containsText (generateObjectDeclaration snakeObject SNAKE_SETTINGS)
     ''  // "userName" maps to JSON key "user_name"'' \<and>
   generateValue (Object snakeObject) SNAKE_SETTINGS 0
     = Inr (''{'' @ newline @ ''  userName: "",'' @ newline @ ''  id: 0,'' @ newline @ ''}'') \<and>
   containsText (''{'' @ newline @ ''  userName: "",'' @ newline @ ''  id: 0,'' @ newline @ ''}'')
     ''  userName: '' \<and>
   containsText (generateObjectSchema snakeObject SNAKE_SETTINGS) ''  user_name: ''\<close>
proof -
  have 1: "snakeToCamelOn SNAKE_SETTINGS" by (simp add: SNAKE_SETTINGS_def)
  have 2: "(''user_name'', PropertyInfo (Primitive PString) False False) \<in> set (properties snakeObject)"
    by (simp add: snakeObject_def)
  have 3: "isSnakeCase ''user_name''" by code_simp
  have 4: "snakeToCamel ''user_name'' = ''userName''" by code_simp
  have 5: \<open>generateValue (Object snakeObject) SNAKE_SETTINGS 0
     = Inr (''{'' @ newline @ ''  userName: "",'' @ newline @ ''  id: 0,'' @ newline @ ''}'')\<close>
    by code_simp
  have 6: "repeatSpaces (0 + 1) = ''  ''" by code_simp
  have 7: "nonEmptyUnionsObject snakeObject" by (simp add: snakeObject_def)
  from keys_rendered_through_snakeToCamel[OF 1 2 3, of 0] 1 2 3 4 5 6 7 show ?thesis by simp
qed

text \<open>
  Examples of the naming tests of the source.
\<close>

lemma naming_tests:
  "fst (generate [''root'', ''user'', ''address''] Map.empty) = ''RootUserAddress''"
  "map snakeToCamel [''user_name'', ''created_at'', ''is_active'', ''name'', ''userName'']
     = [''userName'', ''createdAt'', ''isActive'', ''name'', ''userName'']"
  "map isSnakeCase [''user_name'', ''created_at'', ''a_b_c'', ''name'', ''userName'', ''Name'', ''_private'']
     = [True, True, True, False, False, False, False]"
  by code_simp+

text \<open>
  C9. With \<open>snakeToCamel\<close> set, the declaration and example emitters do not rewrite every
  snake_case key to camelCase. \<open>isSnakeCase\<close> accepts segments of lower-case letters and
  digits, and \<open>snakeToCamel\<close> replaces an underscore only before a lower-case letter: the key
  \<open>line_1\<close> is snake_case and is returned unchanged, so the declaration has the field
  \<open>line_1\<close> and a comment mapping \<open>line_1\<close> to itself, and the example value has the field
  \<open>line_1\<close>; the key \<open>address_line_1\<close> keeps its last underscore.
\<close>

theorem snake_key_with_digit_not_rewritten:
  \<open>isSnakeCase ''line_1'' \<and> snakeToCamel ''line_1'' = ''line_1'' \<and>
   generateObjectDeclaration lineObject SNAKE_SETTINGS =
     ''/**'' @ newline @
     ''  // "line_1" maps to JSON key "line_1"'' @ newline @
     '' */'' @ newline @
     ''export type Root = {'' @ newline @
     ''  line_1: string;'' @ newline @
     ''};'' \<and>
   generateValue (Object lineObject) SNAKE_SETTINGS 0 =
     Inr (''{'' @ newline @ ''  line_1: "",'' @ newline @ ''}'') \<and>
   isSnakeCase ''address_line_1'' \<and> snakeToCamel ''address_line_1'' = ''addressLine_1''\<close>
  by code_simp

subsection \<open>Evaluations at sample inputs\<close>


text \<open>The amended statement of C4 at a list of types, a list of objects and an array value.\<close>

theorem unions_distinct_and_flat_witness:
  "list_all wfUnions [Array (UnionT [Primitive PString, Primitive PNumber]),
              UnionT [Primitive PNumber, Primitive PNull]] \<and>
   mergeTypes [Array (UnionT [Primitive PString, Primitive PNumber]),
               UnionT [Primitive PNumber, Primitive PNull]]
     = UnionT [Array (UnionT [Primitive PString, Primitive PNumber]), Primitive PNumber, Primitive PNull] \<and>
   wfUnions (mergeTypes [Array (UnionT [Primitive PString, Primitive PNumber]),
               UnionT [Primitive PNumber, Primitive PNull]]) \<and>
   structurallyDistinct
     [Array (UnionT [Primitive PString, Primitive PNumber]), Primitive PNumber, Primitive PNull] \<and>
   list_all wfUnionsObject scenarioB \<and>
   wfUnionsObject (mergeObjectTypes scenarioB ''Item'') \<and>
   wfUnions (rtype (inferType (JArray [JNumber 1, JNull, JString ''x'']) DEFAULT_SETTINGS))"
proof -
  have 1: "\<forall>t\<in>set [Array (UnionT [Primitive PString, Primitive PNumber]),
              UnionT [Primitive PNumber, Primitive PNull]]. wfUnions t"
    by (simp add: isUnion_def)
  have 2: "mergeTypes [Array (UnionT [Primitive PString, Primitive PNumber]),
               UnionT [Primitive PNumber, Primitive PNull]]
     = UnionT [Array (UnionT [Primitive PString, Primitive PNumber]), Primitive PNumber, Primitive PNull]"
    by code_simp
  have 3: "\<forall>obj\<in>set scenarioB. wfUnionsObject obj" by (simp add: scenarioB_def)
  from unions_distinct_and_flat[of "JArray [JNumber 1, JNull, JString ''x'']" DEFAULT_SETTINGS
      "[Array (UnionT [Primitive PString, Primitive PNumber]), UnionT [Primitive PNumber, Primitive PNull]]"
      scenarioB "''Item''"] 1 2 3
  show ?thesis by (simp add: list_all_iff)
qed



end
